theory Spec2Isabelle
  imports Complex_Main "HOL-Library.Word"
begin

section \<open>Numbers, errors and the constants of the quadtree\<close>

text \<open>
  The program is \<^verbatim>\<open>src/og/quadTree/Node.js\<close>. JavaScript numbers are modelled without
  rounding: longitudes, latitudes and mesh coordinates are reals, zoom levels, tile
  indices and node identifiers are integers, grid sizes are natural numbers. Where the
  source divides by zero or reads an array out of range the model writes out what
  JavaScript does. The doubles of the source round where the model does not; the
  theorems about computed numbers are stated for the arguments on which the doubles do
  not round either (\<open>onGrid\<close>, \<open>powerOfTwo\<close> and bounds on the integers below).
  \<open>TypeError\<close> (a property of \<open>null\<close> or \<open>undefined\<close>) and
  \<open>RangeError\<close> (a typed array of negative length) are the exceptions the source can
  throw. \<open>NonFinite\<close> and \<open>NonIntegral\<close> are not exceptions: they mark the runs that the
  model does not follow, in which a grid size would become \<open>Infinity\<close>, \<open>NaN\<close> or a
  fraction.
\<close>

datatype error = TypeError | RangeError | NonFinite | NonIntegral

text \<open>A cell of a \<open>Float32Array\<close>: a finite number, or \<open>NaN\<close> (what storing
  \<open>undefined\<close> leaves). A slot of the normal-map bias: a finite number, or
  \<open>+Infinity\<close> (from \<open>1 / 0\<close>).\<close>

datatype cell = Val real | NaN

datatype num = Num real | Infinity

text \<open>Modelled from the spec: quadTree.js is not among the sources. The spec gives the
  child slots as NW=0, NE=1, SW=2, SE=3, the sides as N=0, E=1, S=2, W=3, the three
  traversal states, and \<open>OPSIDE[side]\<close> as the opposite side.\<close>

datatype part = NW | NE | SW | SE

datatype side = N | E | S | W

datatype nstate = NOTRENDERING | RENDERING | WALKTHROUGH

fun partIndex :: "part \<Rightarrow> int" where
  "partIndex NW = 0"
| "partIndex NE = 1"
| "partIndex SW = 2"
| "partIndex SE = 3"

fun OPSIDE :: "side \<Rightarrow> side" where
  "OPSIDE N = S"
| "OPSIDE E = W"
| "OPSIDE S = N"
| "OPSIDE W = E"

section \<open>Extents, segments, nodes and the planet\<close>

record LonLat =
  lon :: real
  lat :: real

record Extent =
  southWest :: LonLat
  northEast :: LonLat

text \<open>Modelled from the spec: Extent.js is not among the sources. The spec says an extent
  provides its width, its height and an inside-test.\<close>

definition getWidth :: "Extent \<Rightarrow> real" where
  "getWidth e = lon (northEast e) - lon (southWest e)"

definition getHeight :: "Extent \<Rightarrow> real" where
  "getHeight e = lat (northEast e) - lat (southWest e)"

definition isInside :: "Extent \<Rightarrow> LonLat \<Rightarrow> bool" where
  "isInside e p =
     (lon p \<ge> lon (southWest e) \<and> lon p \<le> lon (northEast e) \<and>
      lat p \<ge> lat (southWest e) \<and> lat p \<le> lat (northEast e))"

datatype proj = EPSG3857 | EPSG4326

type_synonym texture = nat

text \<open>The fields of a segment that Node.js reads or writes. The bounding sphere and the
  GPU buffers are left out: no function below depends on them.\<close>

record segment =
  tileZoom :: int
  tileX :: int
  tileY :: int
  extent :: Extent
  projection :: proj
  gridSize :: nat
  ready :: bool
  terrainReady :: bool
  terrainIsLoading :: bool
  terrainExists :: bool
  normalMapReady :: bool
  parentNormalMapReady :: bool
  inTheQueue :: bool
  refreshIndexesBuffer :: bool
  terrainVertices :: "cell list"
  normalMapNormals :: "cell list"
  normalMapNormalsRaw :: "cell list"
  tempVertices :: "cell list"
  normalMapTexture :: "texture option"
  normalMapTextureBias :: "num \<times> num \<times> num"

text \<open>Objects are referred to by reference. The reference of a node is its creation index
  on the planet (the value of \<open>_createdNodesCount\<close> when its constructor ran), so two
  nodes never share one. \<open>None\<close> is \<open>null\<close>; after \<open>destroy\<close> the fields
  \<open>neighbors\<close>, \<open>sideSize\<close>, \<open>segment\<close> and \<open>parentNode\<close> are \<open>null\<close>.
  The node's \<open>ready\<close> flag is the field \<open>childrenReady\<close> (the segment has a flag
  \<open>ready\<close> of its own).\<close>

type_synonym ref = nat

record node =
  SegmentPrototype :: "int \<Rightarrow> Extent \<Rightarrow> segment"
  parentNode :: "ref option"
  partId :: part
  nodeId :: int
  state :: "nstate option"
  appliedTerrainNodeId :: int
  sideSize :: "(side \<Rightarrow> int) option"
  childrenReady :: bool
  hasNeighbor :: "side \<Rightarrow> bool"
  neighbors :: "(side \<Rightarrow> ref option) option"
  nodes :: "part \<Rightarrow> ref option"
  segment :: "segment option"
  cameraInside :: bool

record planet =
  heap :: "ref \<Rightarrow> node"
  createdNodesCount :: nat
  renderedNodes :: "ref list"

definition updNode :: "ref \<Rightarrow> (node \<Rightarrow> node) \<Rightarrow> planet \<Rightarrow> planet" where
  "updNode r f p = p\<lparr>heap := (heap p)(r := f (heap p r))\<rparr>"

section \<open>The constructor and createChildrenNodes\<close>

text \<open>\<open>new Node(segmentPrototype, planet, partId, parent, id, tileZoom, extent)\<close>. The
  segment prototype is called with the zoom and the extent. \<open>createBounds\<close> only sets
  the bounding sphere, which is not modelled. The identifier \<open>partId + id\<close> is an
  integer here; in the source it is a double, which is the same number up to \<open>2^53\<close>.\<close>

definition newNode ::
  "(int \<Rightarrow> Extent \<Rightarrow> segment) \<Rightarrow> part \<Rightarrow> ref option \<Rightarrow> int \<Rightarrow> int \<Rightarrow> Extent \<Rightarrow> planet
     \<Rightarrow> ref \<times> planet" where
  "newNode segmentPrototype pid parent ident z ext p =
     (let r = createdNodesCount p;
          n = \<lparr>SegmentPrototype = segmentPrototype,
               parentNode = parent,
               partId = pid,
               nodeId = partIndex pid + ident,
               state = None,
               appliedTerrainNodeId = - 1,
               sideSize = Some (\<lambda>_. 1),
               childrenReady = False,
               hasNeighbor = (\<lambda>_. False),
               neighbors = Some (\<lambda>_. None),
               nodes = (\<lambda>_. None),
               segment = Some (segmentPrototype z ext),
               cameraInside = False\<rparr>
      in (r, p\<lparr>heap := (heap p)(r := n), createdNodesCount := Suc r\<rparr>))"

definition setChild :: "ref \<Rightarrow> part \<Rightarrow> ref \<times> planet \<Rightarrow> planet" where
  "setChild this q rp = updNode this (\<lambda>n. n\<lparr>nodes := (nodes n)(q := Some (fst rp))\<rparr>) (snd rp)"

definition createChildrenNodes :: "ref \<Rightarrow> planet \<Rightarrow> error + planet" where
  "createChildrenNodes this p0 =
     (let p = updNode this (\<lambda>n. n\<lparr>childrenReady := True\<rparr>) p0 in
      case segment (heap p this) of
        None \<Rightarrow> Inl TypeError
      | Some ps \<Rightarrow>
          let ext = extent ps;
              size_x = getWidth ext * 0.5;
              size_y = getHeight ext * 0.5;
              ne = northEast ext;
              sw = southWest ext;
              z = tileZoom ps + 1;
              ident = nodeId (heap p this) * 4 + 1;
              c = \<lparr>lon = lon sw + size_x, lat = lat sw + size_y\<rparr>;
              sp = SegmentPrototype (heap p this);
              p1 = setChild this NW (newNode sp NW (Some this) ident z
                     \<lparr>southWest = \<lparr>lon = lon sw, lat = lat sw + size_y\<rparr>,
                      northEast = \<lparr>lon = lon sw + size_x, lat = lat ne\<rparr>\<rparr> p);
              p2 = setChild this NE (newNode sp NE (Some this) ident z
                     \<lparr>southWest = c, northEast = \<lparr>lon = lon ne, lat = lat ne\<rparr>\<rparr> p1);
              p3 = setChild this SW (newNode sp SW (Some this) ident z
                     \<lparr>southWest = \<lparr>lon = lon sw, lat = lat sw\<rparr>, northEast = c\<rparr> p2);
              p4 = setChild this SE (newNode sp SE (Some this) ident z
                     \<lparr>southWest = \<lparr>lon = lon sw + size_x, lat = lat sw\<rparr>,
                      northEast = \<lparr>lon = lon ne, lat = lat sw + size_y\<rparr>\<rparr> p3)
          in Inr p4)"




section \<open>getCommonSide\<close>

text \<open>\<open>POLE\<close> and \<open>MAX_LAT\<close> come from mercator.js, which is not among the sources:
  they are parameters. The function reads the two segments' extents and the zoom of
  \<open>this\<close>; \<open>None\<close> is the result \<open>-1\<close>.\<close>

definition getCommonSide :: "real \<Rightarrow> real \<Rightarrow> segment \<Rightarrow> segment \<Rightarrow> side option" where
  "getCommonSide POLE MAX_LAT thisSeg nodeSeg =
     (let a = extent thisSeg; b = extent nodeSeg;
          a_ne_lon = lon (northEast a); a_ne_lat = lat (northEast a);
          a_sw_lon = lon (southWest a); a_sw_lat = lat (southWest a);
          b_ne_lon = lon (northEast b); b_ne_lat = lat (northEast b);
          b_sw_lon = lon (southWest b); b_sw_lat = lat (southWest b)
      in if a_ne_lat \<le> b_ne_lat \<and> a_sw_lat \<ge> b_sw_lat \<or> a_ne_lat \<ge> b_ne_lat \<and> a_sw_lat \<le> b_sw_lat then
           (if a_ne_lon = b_sw_lon then Some E
            else if a_sw_lon = b_ne_lon then Some W
            else if tileZoom thisSeg > 0 then
              (if a_ne_lon = POLE \<and> b_sw_lon = - POLE then Some E
               else if a_sw_lon = - POLE \<and> b_ne_lon = POLE then Some E
               else if a_sw_lon = - POLE \<and> b_ne_lon = POLE then Some W
               else None)
            else None)
         else if a_sw_lon \<ge> b_sw_lon \<and> a_ne_lon \<le> b_ne_lon \<or> a_sw_lon \<le> b_sw_lon \<and> a_ne_lon \<ge> b_ne_lon then
           (if a_ne_lat = b_sw_lat then Some N
            else if a_sw_lat = b_ne_lat then Some S
            else if a_ne_lat = POLE \<and> b_sw_lat = MAX_LAT then Some N
            else if a_sw_lat = - POLE \<and> b_ne_lat = - MAX_LAT then Some S
            else None)
         else None)"

section \<open>addToRender\<close>

text \<open>Assignments through a reference that may be \<open>null\<close>: \<open>x.neighbors[s] = v\<close>,
  \<open>x.sideSize[s] = v\<close>. \<open>hasNeighbor\<close> is never \<open>null\<close>.\<close>

definition setNeighbor :: "ref \<Rightarrow> side \<Rightarrow> ref option \<Rightarrow> planet \<Rightarrow> error + planet" where
  "setNeighbor x s v p =
     (case neighbors (heap p x) of
        None \<Rightarrow> Inl TypeError
      | Some nb \<Rightarrow> Inr (updNode x (\<lambda>n. n\<lparr>neighbors := Some (nb(s := v))\<rparr>) p))"

definition setSideSize :: "ref \<Rightarrow> side \<Rightarrow> int \<Rightarrow> planet \<Rightarrow> error + planet" where
  "setSideSize x s v p =
     (case sideSize (heap p x) of
        None \<Rightarrow> Inl TypeError
      | Some sz \<Rightarrow> Inr (updNode x (\<lambda>n. n\<lparr>sideSize := Some (sz(s := v))\<rparr>) p))"

definition setHasNeighbor :: "ref \<Rightarrow> side \<Rightarrow> planet \<Rightarrow> planet" where
  "setHasNeighbor x s p = updNode x (\<lambda>n. n\<lparr>hasNeighbor := (hasNeighbor n)(s := True)\<rparr>) p"

definition neighbor :: "planet \<Rightarrow> ref \<Rightarrow> side \<Rightarrow> ref option" where
  "neighbor p x s = (case neighbors (heap p x) of None \<Rightarrow> None | Some nb \<Rightarrow> nb s)"

text \<open>The seam ratio
  \<open>ld = ap.gridSize / (bp.gridSize * Math.pow(2, bp.tileZoom - ap.tileZoom))\<close>, as a
  real number: the quotient is exact here, and it is exact in the source when the grid
  sizes are powers of two.\<close>

definition seamRatio :: "segment \<Rightarrow> segment \<Rightarrow> real" where
  "seamRatio ap bp =
     real (gridSize ap) / (real (gridSize bp) * 2 powi (tileZoom bp - tileZoom ap))"

text \<open>The two side sizes the three branches on \<open>ld\<close> assign: the first goes to
  \<open>node.sideSize[cs]\<close>, the second to \<open>ni.sideSize[opcs]\<close>. When \<open>bp.gridSize\<close> is 0
  the source divides by zero: \<open>ld\<close> is \<open>Infinity\<close> for a positive \<open>ap.gridSize\<close> (the
  first branch, with \<open>Math.ceil(ap.gridSize / Infinity) = 0\<close>) and \<open>NaN\<close> for \<open>0 / 0\<close>
  (both comparisons fail: the last branch).\<close>

definition negotiate :: "segment \<Rightarrow> segment \<Rightarrow> int \<times> int" where
  "negotiate ap bp =
     (if gridSize bp = 0 then
        (if gridSize ap = 0 then (int (gridSize ap), int (gridSize bp))
         else (0, int (gridSize bp)))
      else
        let ld = seamRatio ap bp in
        if ld > 1 then (\<lceil>real (gridSize ap) / ld\<rceil>, int (gridSize bp))
        else if ld < 1 then (int (gridSize ap), \<lceil>real (gridSize bp) * ld\<rceil>)
        else (int (gridSize ap), int (gridSize bp)))"

text \<open>One iteration of the loop of \<open>addToRender\<close>, for the registered node \<open>ni\<close>.\<close>

definition encounter :: "real \<Rightarrow> real \<Rightarrow> ref \<Rightarrow> ref \<Rightarrow> planet \<Rightarrow> error + planet" where
  "encounter POLE MAX_LAT node ni p =
     (case segment (heap p node) of
        None \<Rightarrow> Inl TypeError
      | Some ap \<Rightarrow>
     (case segment (heap p ni) of
        None \<Rightarrow> Inl TypeError
      | Some bp \<Rightarrow>
     (case getCommonSide POLE MAX_LAT ap bp of
        None \<Rightarrow> Inr p
      | Some cs \<Rightarrow>
          let opcs = OPSIDE cs in
          (case setNeighbor node cs (Some ni) p of
             Inl e \<Rightarrow> Inl e
           | Inr p1 \<Rightarrow>
          (case setNeighbor ni opcs (Some node) p1 of
             Inl e \<Rightarrow> Inl e
           | Inr p2 \<Rightarrow>
               if \<not> (hasNeighbor (heap p2 node) cs \<and> hasNeighbor (heap p2 ni) opcs) then
                 let p3 = setHasNeighbor ni opcs (setHasNeighbor node cs p2) in
                 (case setSideSize node cs (fst (negotiate ap bp)) p3 of
                    Inl e \<Rightarrow> Inl e
                  | Inr p4 \<Rightarrow> setSideSize ni opcs (snd (negotiate ap bp)) p4)
               else Inr p2)))))"

fun addToRenderLoop :: "real \<Rightarrow> real \<Rightarrow> ref \<Rightarrow> ref list \<Rightarrow> planet \<Rightarrow> error + planet" where
  "addToRenderLoop POLE MAX_LAT node [] p = Inr p"
| "addToRenderLoop POLE MAX_LAT node (ni # rest) p =
     (case encounter POLE MAX_LAT node ni p of
        Inl e \<Rightarrow> Inl e
      | Inr p' \<Rightarrow> addToRenderLoop POLE MAX_LAT node rest p')"

text \<open>The loop runs from the last registered node to the first; the node is pushed after
  the loop.\<close>

definition addToRender :: "real \<Rightarrow> real \<Rightarrow> ref \<Rightarrow> planet \<Rightarrow> error + planet" where
  "addToRender POLE MAX_LAT node p0 =
     (let p = updNode node (\<lambda>n. n\<lparr>state := Some RENDERING\<rparr>) p0 in
      case addToRenderLoop POLE MAX_LAT node (rev (renderedNodes p)) p of
        Inl e \<Rightarrow> Inl e
      | Inr p' \<Rightarrow> Inr (p'\<lparr>renderedNodes := renderedNodes p' @ [node]\<rparr>))"

text \<open>The grid sizes for which the doubles of the source compute the seam ratio and
  the side sizes without rounding: powers of two. With zoom levels from 0 to 255 every
  number \<open>addToRender\<close> forms of them is a power of two between \<open>2^-765\<close> and
  \<open>2^510\<close>, which a double holds.\<close>

definition powerOfTwo :: "nat \<Rightarrow> bool" where
  "powerOfTwo g = (\<exists>k. k \<le> 255 \<and> g = 2 ^ k)"

text \<open>No node of \<open>earlier\<close> will negotiate the side \<open>cs\<close> of the registering node
  again once its flag for that side is set: each of them that shares the side has its
  own flag for the opposite side set.\<close>

definition unopposed :: "real \<Rightarrow> real \<Rightarrow> planet \<Rightarrow> segment \<Rightarrow> side \<Rightarrow> ref list \<Rightarrow> bool" where
  "unopposed POLE MAX_LAT p ap cs earlier =
     (\<forall>nj\<in>set earlier.
        case segment (heap p nj) of
          None \<Rightarrow> True
        | Some bj \<Rightarrow>
            getCommonSide POLE MAX_LAT ap bj = Some cs \<longrightarrow> hasNeighbor (heap p nj) (OPSIDE cs))"

section \<open>renderTree: the reset of the neighbours and the camera-inside test\<close>

text \<open>The first statements of \<open>renderTree\<close> (the state and the four neighbour slots).\<close>

definition renderTreeReset :: "ref \<Rightarrow> planet \<Rightarrow> error + planet" where
  "renderTreeReset this p0 =
     (let p = updNode this (\<lambda>n. n\<lparr>state := Some WALKTHROUGH\<rparr>) p0 in
      case neighbors (heap p this) of
        None \<Rightarrow> Inl TypeError
      | Some _ \<Rightarrow> Inr (updNode this (\<lambda>n. n\<lparr>neighbors := Some (\<lambda>_. None)\<rparr>) p))"

record camera =
  lonLat :: LonLat
  lonLatMerc :: LonLat
  insideSegment :: "ref option"
  insideSegmentPosition :: "LonLat option"

text \<open>The block \<open>if (this.parentNode) { ... } else { this._cameraInside = true; }\<close> of
  \<open>renderTree\<close>. \<open>MAX_LAT\<close> is mercator.MAX_LAT, a parameter. When neither test is
  made, \<open>inside\<close> stays \<open>undefined\<close>, which is false in the condition that follows.
  The camera's inside-segment is recorded by the reference of the segment's node.\<close>

definition renderTreeCameraInside ::
  "real \<Rightarrow> camera \<Rightarrow> ref \<Rightarrow> planet \<Rightarrow> error + (camera \<times> planet)" where
  "renderTreeCameraInside MAX_LAT cam this p =
     (case parentNode (heap p this) of
        None \<Rightarrow> Inr (cam, updNode this (\<lambda>n. n\<lparr>cameraInside := True\<rparr>) p)
      | Some par \<Rightarrow>
          let p1 = updNode this (\<lambda>n. n\<lparr>cameraInside := False\<rparr>) p in
          if cameraInside (heap p1 par) then
            (case segment (heap p1 this) of
               None \<Rightarrow> Inl TypeError
             | Some seg \<Rightarrow>
                 let (inside, cam1) =
                       (if \<bar>lat (lonLat cam)\<bar> \<le> MAX_LAT \<and> projection seg = EPSG3857 then
                          (isInside (extent seg) (lonLatMerc cam),
                           cam\<lparr>insideSegmentPosition := Some (lonLatMerc cam)\<rparr>)
                        else if projection seg = EPSG4326 then
                          (isInside (extent seg) (lonLat cam),
                           cam\<lparr>insideSegmentPosition := Some (lonLat cam)\<rparr>)
                        else (False, cam))
                 in if inside then
                      Inr (cam1\<lparr>insideSegment := Some this\<rparr>,
                           updNode this (\<lambda>n. n\<lparr>cameraInside := True\<rparr>) p1)
                    else Inr (cam1, p1))
          else Inr (cam, p1))"

section \<open>destroy\<close>

text \<open>\<open>n[s] && n[s].neighbors && (n[s].neighbors[t] = null)\<close>, where \<open>n\<close> is the
  neighbours array of \<open>this\<close>.\<close>

definition unlink :: "ref \<Rightarrow> side \<Rightarrow> side \<Rightarrow> planet \<Rightarrow> planet" where
  "unlink this s t p =
     (case neighbor p this s of
        None \<Rightarrow> p
      | Some x \<Rightarrow>
          (case neighbors (heap p x) of
             None \<Rightarrow> p
           | Some nb \<Rightarrow> updNode x (\<lambda>n. n\<lparr>neighbors := Some (nb(t := None))\<rparr>) p))"

text \<open>\<open>this.segment.destroySegment()\<close> throws on a node destroyed before, and so does
  \<open>n[N]\<close> on a \<open>null\<close> array. The statement \<open>this.hasNeighbors = null\<close> creates a
  property of that name and leaves \<open>hasNeighbor\<close> as it is.\<close>

definition destroy :: "ref \<Rightarrow> planet \<Rightarrow> error + planet" where
  "destroy this p0 =
     (let p = updNode this (\<lambda>n. n\<lparr>state := Some NOTRENDERING\<rparr>) p0 in
      case segment (heap p this) of
        None \<Rightarrow> Inl TypeError
      | Some _ \<Rightarrow>
          (case neighbors (heap p this) of
             None \<Rightarrow> Inl TypeError
           | Some _ \<Rightarrow>
               let p1 = unlink this N S p;
                   p2 = unlink this E W p1;
                   p3 = unlink this S N p2;
                   p4 = unlink this W E p3
               in Inr (updNode this
                    (\<lambda>n. n\<lparr>neighbors := None, parentNode := None, sideSize := None,
                           segment := None\<rparr>) p4)))"

section \<open>getMatrixSubArray\<close>

text \<open>\<open>sourceArr[ind]\<close> stored into a \<open>Float32Array\<close>: a read out of range gives
  \<open>undefined\<close>, which is stored as \<open>NaN\<close>. A write out of range is dropped, as
  \<open>res[k := v]\<close> does.\<close>

definition readCell :: "cell list \<Rightarrow> int \<Rightarrow> cell" where
  "readCell arr i = (if 0 \<le> i \<and> i < int (length arr) then arr ! nat i else NaN)"

function colLoop ::
  "cell list \<Rightarrow> int \<Rightarrow> int \<Rightarrow> int \<Rightarrow> int \<Rightarrow> cell list \<times> nat \<Rightarrow> cell list \<times> nat" where
  "colLoop sourceArr gridSz i j j0size (res, vInd) =
     (if j < j0size then
        let ind = 3 * (i * (gridSz + 1) + j) in
        colLoop sourceArr gridSz i (j + 1) j0size
          (res[vInd := readCell sourceArr ind,
               vInd + 1 := readCell sourceArr (ind + 1),
               vInd + 2 := readCell sourceArr (ind + 2)], vInd + 3)
      else (res, vInd))"
  by pat_completeness auto
termination
  by (relation "measure (\<lambda>(sourceArr, gridSz, i, j, j0size, acc). nat (j0size - j))") auto

function rowLoop ::
  "cell list \<Rightarrow> int \<Rightarrow> int \<Rightarrow> int \<Rightarrow> int \<Rightarrow> int \<Rightarrow> cell list \<times> nat \<Rightarrow> cell list \<times> nat" where
  "rowLoop sourceArr gridSz i i0size j0 j0size acc =
     (if i < i0size then
        rowLoop sourceArr gridSz (i + 1) i0size j0 j0size
          (colLoop sourceArr gridSz i j0 j0size acc)
      else acc)"
  by pat_completeness auto
termination
  by (relation "measure (\<lambda>(sourceArr, gridSz, i, i0size, j0, j0size, acc). nat (i0size - i))") auto

declare colLoop.simps [simp del] rowLoop.simps [simp del]

definition getMatrixSubArray ::
  "cell list \<Rightarrow> int \<Rightarrow> int \<Rightarrow> int \<Rightarrow> int \<Rightarrow> error + cell list" where
  "getMatrixSubArray sourceArr gridSz i0 j0 sz =
     (let i0size = i0 + sz + 1;
          j0size = j0 + sz + 1
      in if i0size * j0size * 3 < 0 then Inl RangeError
         else Inr (fst (rowLoop sourceArr gridSz i0 i0size j0 j0size
                     (replicate (nat (i0size * j0size * 3)) (Val 0), 0))))"

section \<open>Walking up the parents: whileTerrainLoading and whileNormalMapCreating\<close>

text \<open>These functions follow \<open>parentNode\<close> from \<open>this\<close> and read the ancestors' segments.
  They are given the node \<open>this\<close> and the list of its ancestors, the parent first and
  the root last (the node whose \<open>parentNode\<close> is \<open>null\<close>); they return the node
  \<open>this\<close> as they leave it. The calls into the segment and the normal-map creator
  (createPlainSegment, loadTerrain, deleteBuffers, createCoordsBuffers, queue) are code
  outside Node.js: the model lists them in the order they are made, each with the number
  of \<open>parentNode\<close> steps from \<open>this\<close> to the node whose segment receives the call, and
  takes the fields read afterwards as those calls leave them unchanged.\<close>

datatype call =
    CreatePlainSegment nat
  | LoadTerrain nat
  | QueueNormalMap nat
  | DeleteBuffers nat
  | CreateCoordsBuffers nat "cell list" nat

text \<open>\<open>while (pn.parentNode && c(pn.segment)) pn = pn.parentNode\<close>: the result is the
  node the walk stops at, with the ancestors above it.\<close>

fun walkUp :: "(segment \<Rightarrow> bool) \<Rightarrow> node \<Rightarrow> node list \<Rightarrow> error + (node \<times> node list)" where
  "walkUp c pn [] = Inr (pn, [])"
| "walkUp c pn (parent # upper) =
     (case segment pn of
        None \<Rightarrow> Inl TypeError
      | Some s \<Rightarrow> if c s then walkUp c parent upper else Inr (pn, parent # upper))"

text \<open>\<open>x << k\<close> on 32-bit integers: the shift count is taken modulo 32 and the result is
  read as a signed 32-bit integer.\<close>

definition shl32 :: "int \<Rightarrow> int \<Rightarrow> int" where
  "shl32 x k = sint (push_bit (nat (k mod 32)) (word_of_int x :: 32 word))"

definition recip :: "int \<Rightarrow> num" where
  "recip d = (if d = 0 then Infinity else Num (1 / real_of_int d))"

record terrain =
  minZoom :: int
  maxZoom :: int
  fileGridSize :: nat

text \<open>Modelled from the spec: Vec3.js is not among the sources. \<open>scaleTo\<close> gives a scaled
  copy and \<open>addA\<close> adds to the receiver; a coordinate that is \<open>NaN\<close> stays \<open>NaN\<close>.\<close>

type_synonym vec3 = "cell \<times> cell \<times> cell"

fun cadd :: "cell \<Rightarrow> cell \<Rightarrow> cell" where
  "cadd (Val a) (Val b) = Val (a + b)"
| "cadd _ _ = NaN"

fun csub :: "cell \<Rightarrow> cell \<Rightarrow> cell" where
  "csub (Val a) (Val b) = Val (a - b)"
| "csub _ _ = NaN"

fun cscale :: "real \<Rightarrow> cell \<Rightarrow> cell" where
  "cscale k (Val a) = Val (a * k)"
| "cscale k NaN = NaN"

fun scaleTo :: "vec3 \<Rightarrow> real \<Rightarrow> vec3" where
  "scaleTo (x, y, z) k = (cscale k x, cscale k y, cscale k z)"

fun addA :: "vec3 \<Rightarrow> vec3 \<Rightarrow> vec3" where
  "addA (x, y, z) (x', y', z') = (cadd x x', cadd y y', cadd z z')"

text \<open>The four vertices of the branch \<open>gridSize < 1\<close>: \<open>_vertOrder\<close> is
  \<open>(0,0), (1,0), (0,1), (1,1)\<close> as \<open>(x, y)\<close>.\<close>

definition vertOrder :: "(real \<times> real) list" where
  "vertOrder = [(0, 0), (1, 0), (0, 1), (1, 1)]"

definition neGridSize :: nat where
  "neGridSize = 1"

definition interpolate :: "cell list \<Rightarrow> real \<Rightarrow> real \<Rightarrow> real \<Rightarrow> cell list" where
  "interpolate bigOne gridSz t_i0 t_j0 =
     (let b = (\<lambda>k. readCell bigOne k);
          insideSize = 1 / gridSz;
          v_lt = (b 0, b 1, b 2);
          v_rb = (b 9, b 10, b 11);
          vn = (csub (b 3) (b 0), csub (b 4) (b 1), csub (b 5) (b 2));
          vw = (csub (b 6) (b 0), csub (b 7) (b 1), csub (b 8) (b 2));
          ve = (csub (b 3) (b 9), csub (b 4) (b 10), csub (b 5) (b 11));
          vs = (csub (b 6) (b 9), csub (b 7) (b 10), csub (b 8) (b 11))
      in concat (map (\<lambda>(vx, vy).
           let vi_y = vy + t_i0; vi_x = vx + t_j0;
               vi_x_is = vi_x * gridSz; vi_y_is = vi_y * gridSz;
               coords = (if vi_y + vi_x < insideSize
                         then addA (addA (scaleTo vn vi_x_is) (scaleTo vw vi_y_is)) v_lt
                         else addA (addA (scaleTo vs (1 - vi_x_is)) (scaleTo ve (1 - vi_y_is))) v_rb)
           in [fst coords, fst (snd coords), snd (snd coords)]) vertOrder))"

text \<open>The two branches on \<open>gridSize = pn.segment.gridSize / dZ2\<close>: the new grid size,
  \<open>tempVertices\<close> and \<open>tempNormalMapNormals\<close> (\<open>None\<close> when it stays \<open>undefined\<close>).\<close>

definition inheritMesh ::
  "nat \<Rightarrow> segment \<Rightarrow> int \<Rightarrow> int \<Rightarrow> int \<Rightarrow> error + (nat \<times> cell list \<times> cell list option)" where
  "inheritMesh fgs pseg dZ2 offsetX offsetY =
     (if dZ2 = 0 then Inl NonFinite
      else if dZ2 > 0 \<and> int (gridSize pseg) \<ge> dZ2 then
        (if dZ2 dvd int (gridSize pseg) \<and> dZ2 dvd int fgs then
           let gridSz = int (gridSize pseg) div dZ2;
               fgsZ = int fgs div dZ2
           in case getMatrixSubArray (terrainVertices pseg) (int (gridSize pseg))
                     (gridSz * offsetY) (gridSz * offsetX) gridSz of
                Inl e \<Rightarrow> Inl e
              | Inr tv \<Rightarrow>
                  (case getMatrixSubArray (normalMapNormals pseg) (int fgs)
                          (fgsZ * offsetY) (fgsZ * offsetX) fgsZ of
                     Inl e \<Rightarrow> Inl e
                   | Inr tn \<Rightarrow> Inr (nat gridSz, tv, Some tn))
         else Inl NonIntegral)
      else if gridSize pseg = 0 then Inl NonFinite
      else
        let gridSz = real (gridSize pseg) / real_of_int dZ2;
            i0 = \<lfloor>gridSz * real_of_int offsetY\<rfloor>;
            j0 = \<lfloor>gridSz * real_of_int offsetX\<rfloor>
        in case getMatrixSubArray (terrainVertices pseg) (int (gridSize pseg)) i0 j0 1 of
             Inl e \<Rightarrow> Inl e
           | Inr bigOne \<Rightarrow>
               let insideSize = 1 / gridSz;
                   t_i0 = real_of_int offsetY - insideSize * real_of_int i0;
                   t_j0 = real_of_int offsetX - insideSize * real_of_int j0
               in Inr (neGridSize, interpolate bigOne gridSz t_i0 t_j0, None))"

definition setSegment :: "(segment \<Rightarrow> segment) \<Rightarrow> node \<Rightarrow> node" where
  "setSegment f n = n\<lparr>segment := map_option f (segment n)\<rparr>"

text \<open>The part of \<open>whileTerrainLoading\<close> under
  \<open>if (pn.segment.terrainExists && this.appliedTerrainNodeId !== pn.nodeId)\<close>.\<close>

definition applyInherited ::
  "terrain \<Rightarrow> node \<Rightarrow> node \<Rightarrow> segment \<Rightarrow> segment \<Rightarrow> int \<Rightarrow> int \<Rightarrow> int \<Rightarrow>
     error + (node \<times> cell list option \<times> cell list option \<times> call list)" where
  "applyInherited terr this pn seg pseg dZ2 offsetX offsetY =
     (if terrainExists pseg \<and> appliedTerrainNodeId this \<noteq> nodeId pn then
        (case inheritMesh (fileGridSize terr) pseg dZ2 offsetX offsetY of
           Inl e \<Rightarrow> Inl e
         | Inr (gridSz, tv, tn) \<Rightarrow>
             Inr (setSegment (\<lambda>s. s\<lparr>gridSize := gridSz, refreshIndexesBuffer := True,
                                    tempVertices := tv\<rparr>)
                    (this\<lparr>sideSize := Some (\<lambda>_. int gridSz),
                          appliedTerrainNodeId := nodeId pn\<rparr>),
                  Some tv, tn, [DeleteBuffers 0, CreateCoordsBuffers 0 tv gridSz]))
      else Inr (this, None, None, []))"

definition whileTerrainLoading ::
  "terrain \<Rightarrow> node \<Rightarrow> node list \<Rightarrow> error + (node \<times> call list \<times> bool)" where
  "whileTerrainLoading terr this ancestors =
     (case segment this of
        None \<Rightarrow> Inl TypeError
      | Some seg \<Rightarrow>
     let calls0 = (if \<not> ready seg then [CreatePlainSegment 0] else []) in
     (case walkUp (\<lambda>s. \<not> terrainReady s) this ancestors of
        Inl e \<Rightarrow> Inl e
      | Inr (pn, upper) \<Rightarrow>
     (case segment pn of
        None \<Rightarrow> Inl TypeError
      | Some pseg \<Rightarrow>
     if terrainReady pseg then
       let dZ2 = shl32 2 (tileZoom seg - tileZoom pseg - 1);
           offsetX = tileX seg - tileX pseg * dZ2;
           offsetY = tileY seg - tileY pseg * dZ2
       in
       (case applyInherited terr this pn seg pseg dZ2 offsetX offsetY of
          Inl e \<Rightarrow> Inl e
        | Inr (this1, tempVerts, tempNormalMapNormals, calls1) \<Rightarrow>
            let maxZ = maxZoom terr; calls = calls0 @ calls1 in
            if tileZoom seg > maxZ then
              (if tileZoom pseg \<ge> maxZ then
                 let this2 = setSegment (\<lambda>s. s\<lparr>terrainReady := True, terrainIsLoading := False\<rparr>)
                               (this1\<lparr>appliedTerrainNodeId := nodeId this\<rparr>)
                 in if terrainExists pseg then
                      (case (tempVerts, tempNormalMapNormals) of
                         (Some tv, Some tn) \<Rightarrow>
                           Inr (setSegment (\<lambda>s. s\<lparr>terrainExists := True, terrainVertices := tv,
                                                   normalMapNormals := tn,
                                                   normalMapNormalsRaw := tn\<rparr>) this2,
                                calls, True)
                       | _ \<Rightarrow> Inl TypeError)
                    else Inr (this2, calls, True)
               else
                 (case walkUp (\<lambda>s. tileZoom s \<noteq> maxZ) this1 ancestors of
                    Inl e \<Rightarrow> Inl e
                  | Inr (pn2, upper2) \<Rightarrow>
                      (case segment pn2 of
                         None \<Rightarrow> Inl TypeError
                       | Some pns \<Rightarrow>
                           let k = length ancestors - length upper2 in
                           Inr (this1,
                                calls @ (if \<not> ready pns then [CreatePlainSegment k] else [])
                                      @ [LoadTerrain k],
                                True))))
            else Inr (this1, calls, True))
     else Inr (this, calls0, True))))"

definition whileNormalMapCreating ::
  "terrain \<Rightarrow> node \<Rightarrow> node list \<Rightarrow> error + (node \<times> call list)" where
  "whileNormalMapCreating terr this ancestors =
     (case segment this of
        None \<Rightarrow> Inl TypeError
      | Some seg \<Rightarrow>
     let maxZ = maxZoom terr;
         calls0 = (if tileZoom seg \<le> maxZ \<and> \<not> terrainIsLoading seg \<and> terrainReady seg \<and>
                      \<not> inTheQueue seg
                   then [QueueNormalMap 0] else [])
     in
     (case walkUp (\<lambda>s. \<not> normalMapReady s) this ancestors of
        Inl e \<Rightarrow> Inl e
      | Inr (pn, upper) \<Rightarrow>
     (case segment pn of
        None \<Rightarrow> Inl TypeError
      | Some pseg \<Rightarrow>
     let dZ2 = shl32 2 (tileZoom seg - tileZoom pseg - 1);
         this1 = setSegment (\<lambda>s. s\<lparr>normalMapTexture := normalMapTexture pseg,
                                   normalMapTextureBias :=
                                     (Num (real_of_int (tileX seg - tileX pseg * dZ2)),
                                      Num (real_of_int (tileY seg - tileY pseg * dZ2)),
                                      recip dZ2)\<rparr>) this
     in
     if tileZoom seg > maxZ then
       (if tileZoom pseg = maxZ then
          Inr (setSegment (\<lambda>s. s\<lparr>parentNormalMapReady := True\<rparr>) this1, calls0)
        else
          (case walkUp (\<lambda>s. tileZoom s \<noteq> maxZ) this1 ancestors of
             Inl e \<Rightarrow> Inl e
           | Inr (pn2, upper2) \<Rightarrow>
               (case segment pn2 of
                  None \<Rightarrow> Inl TypeError
                | Some pns \<Rightarrow>
                    let k = length ancestors - length upper2 in
                    Inr (this1,
                         calls0 @
                         (if \<not> ready pns then [CreatePlainSegment k, LoadTerrain k]
                          else if \<not> inTheQueue pns \<and> \<not> terrainIsLoading pns
                          then [QueueNormalMap k] else [])))))
     else Inr (this1, calls0))))"

section \<open>Test data\<close>

text \<open>A segment prototype that stores the zoom and the extent it is given, and a node
  with such a segment; the concrete instances below are built from them.\<close>

definition plainSegment :: "int \<Rightarrow> Extent \<Rightarrow> segment" where
  "plainSegment z e =
     \<lparr>tileZoom = z, tileX = 0, tileY = 0, extent = e, projection = EPSG3857, gridSize = 1,
      ready = False, terrainReady = False, terrainIsLoading = False, terrainExists = False,
      normalMapReady = False, parentNormalMapReady = False, inTheQueue = False,
      refreshIndexesBuffer = False, terrainVertices = [], normalMapNormals = [],
      normalMapNormalsRaw = [], tempVertices = [], normalMapTexture = None,
      normalMapTextureBias = (Num 0, Num 0, Num 1)\<rparr>"

definition box :: "real \<Rightarrow> real \<Rightarrow> real \<Rightarrow> real \<Rightarrow> Extent" where
  "box lon0 lat0 lon1 lat1 =
     \<lparr>southWest = \<lparr>lon = lon0, lat = lat0\<rparr>, northEast = \<lparr>lon = lon1, lat = lat1\<rparr>\<rparr>"

definition emptyPlanet :: planet where
  "emptyPlanet =
     \<lparr>heap = (\<lambda>_. \<lparr>SegmentPrototype = plainSegment, parentNode = None, partId = NW,
                    nodeId = 0, state = None, appliedTerrainNodeId = - 1, sideSize = None,
                    childrenReady = False, hasNeighbor = (\<lambda>_. False), neighbors = None,
                    nodes = (\<lambda>_. None), segment = None, cameraInside = False\<rparr>),
      createdNodesCount = 0, renderedNodes = []\<rparr>"


definition sideSizeAt :: "planet \<Rightarrow> ref \<Rightarrow> side \<Rightarrow> int option" where
  "sideSizeAt p x s = map_option (\<lambda>sz. sz s) (sideSize (heap p x))"

text \<open>A prototype for segments of a given grid size and projection.\<close>

definition gridSegment :: "nat \<Rightarrow> proj \<Rightarrow> int \<Rightarrow> Extent \<Rightarrow> segment" where
  "gridSegment g pr z e = (plainSegment z e)\<lparr>projection := pr, gridSize := g\<rparr>"

text \<open>Two nodes that share an edge: node 0 at zoom 5 with the extent \<open>[40,0]..[50,10]\<close>,
  node 1 at zoom 3 with the extent \<open>[0,0]..[40,40]\<close>, both of grid size 32; node 1 is
  registered.\<close>

definition seamPlanet :: planet where
  "seamPlanet =
     (snd (newNode (gridSegment 32 EPSG3857) NW None 0 3 (box 0 0 40 40)
        (snd (newNode (gridSegment 32 EPSG3857) NW None 0 5 (box 40 0 50 10) emptyPlanet))))
     \<lparr>renderedNodes := [1]\<rparr>"

text \<open>The same planet after node 0 has had a neighbour on its west side before:
  \<open>hasNeighbor[W]\<close> of node 0 is set, \<open>hasNeighbor[E]\<close> of node 1 is not.\<close>

definition flaggedPlanet :: planet where
  "flaggedPlanet = setHasNeighbor 0 W seamPlanet"

text \<open>A node with two finer tiles along its west side: node 0 at zoom 4 with the extent
  \<open>[40,0]..[60,20]\<close> and grid size 32, node 1 at zoom 5 with \<open>[30,0]..[40,10]\<close> and
  grid size 32, node 2 at zoom 5 with \<open>[30,10]..[40,20]\<close> and grid size 8; the nodes
  1 and 2 are registered, in this order.\<close>

definition twoSeamPlanet :: planet where
  "twoSeamPlanet =
     (snd (newNode (gridSegment 8 EPSG3857) NW None 0 5 (box 30 10 40 20)
        (snd (newNode (gridSegment 32 EPSG3857) NW None 0 5 (box 30 0 40 10)
           (snd (newNode (gridSegment 32 EPSG3857) NW None 0 4 (box 40 0 60 20)
              emptyPlanet))))))
     \<lparr>renderedNodes := [1, 2]\<rparr>"

text \<open>A child (node 1) with a mercator segment under a root (node 0) that has the camera
  inside, and a camera north of the mercator limit.\<close>

definition polarPlanet :: planet where
  "polarPlanet =
     updNode 0 (\<lambda>n. n\<lparr>cameraInside := True\<rparr>)
       (snd (newNode (gridSegment 32 EPSG3857) NW (Some 0) 1 1 (box (-200) (-200) 200 200)
          (snd (newNode (gridSegment 32 EPSG3857) NW None 0 0 (box (-200) (-200) 200 200)
             emptyPlanet))))"

definition polarCamera :: camera where
  "polarCamera =
     \<lparr>lonLat = \<lparr>lon = 0, lat = 86\<rparr>, lonLatMerc = \<lparr>lon = 0, lat = 300\<rparr>,
      insideSegment = None, insideSegmentPosition = None\<rparr>"

text \<open>A node at zoom 2 (tile 3, 1) under a parent at zoom 1 and a root at zoom 0; no
  segment has its normal map ready, and the root's segment holds the texture handle 7.\<close>

definition tileSegment :: "int \<Rightarrow> int \<Rightarrow> int \<Rightarrow> segment" where
  "tileSegment z x y = (plainSegment z (box 0 0 1 1))\<lparr>tileX := x, tileY := y\<rparr>"

definition segNode :: "part \<Rightarrow> int \<Rightarrow> segment \<Rightarrow> node" where
  "segNode pid ident s =
     \<lparr>SegmentPrototype = plainSegment, parentNode = None, partId = pid, nodeId = ident,
      state = None, appliedTerrainNodeId = - 1, sideSize = Some (\<lambda>_. 1),
      childrenReady = False, hasNeighbor = (\<lambda>_. False), neighbors = Some (\<lambda>_. None),
      nodes = (\<lambda>_. None), segment = Some s, cameraInside = False\<rparr>"

definition deepNode :: node where
  "deepNode = segNode SE 12 (tileSegment 2 3 1)"

definition midNode :: node where
  "midNode = segNode NE 2 (tileSegment 1 1 0)"

definition topNode :: node where
  "topNode = segNode NW 0 ((tileSegment 0 0 0)\<lparr>normalMapTexture := Some 7\<rparr>)"

definition someTerrain :: terrain where
  "someTerrain = \<lparr>minZoom = 0, maxZoom = 14, fileGridSize = 2\<rparr>"

text \<open>A root at zoom 0 with real terrain on a 2 x 2 grid (9 vertices, numbered by their
  place in the array), and its south-east child at zoom 1, tile (1, 1), whose own
  terrain is not loaded.\<close>

definition numbered :: "cell list" where
  "numbered =
     [Val 0, Val 1, Val 2, Val 3, Val 4, Val 5, Val 6, Val 7, Val 8,
      Val 9, Val 10, Val 11, Val 12, Val 13, Val 14, Val 15, Val 16, Val 17,
      Val 18, Val 19, Val 20, Val 21, Val 22, Val 23, Val 24, Val 25, Val 26]"

definition terrainRoot :: node where
  "terrainRoot =
     segNode NW 0 ((tileSegment 0 0 0)\<lparr>gridSize := 2, ready := True, terrainReady := True,
        terrainExists := True, terrainVertices := numbered, normalMapNormals := numbered\<rparr>)"

definition childSE :: node where
  "childSE = segNode SE 4 ((tileSegment 1 1 1)\<lparr>ready := True\<rparr>)"

section \<open>A frame: the nodes that are rendered\<close>

text \<open>For a node that ends up rendered, \<open>renderTree\<close> resets the neighbours and goes on
  through \<open>prepareForRendering\<close> and \<open>renderNode\<close> to \<open>addToRender\<close>; what it does in
  between (camera, terrain, normal map) touches no neighbour slot, no extent and no
  zoom. A frame registers the rendered nodes one after the other in the order of the
  traversal.\<close>

definition renderVisit :: "real \<Rightarrow> real \<Rightarrow> ref \<Rightarrow> planet \<Rightarrow> error + planet" where
  "renderVisit POLE MAX_LAT node p =
     (case renderTreeReset node p of
        Inl e \<Rightarrow> Inl e
      | Inr p1 \<Rightarrow> addToRender POLE MAX_LAT node p1)"

fun renderAll :: "real \<Rightarrow> real \<Rightarrow> ref list \<Rightarrow> planet \<Rightarrow> error + planet" where
  "renderAll POLE MAX_LAT [] p = Inr p"
| "renderAll POLE MAX_LAT (n # ns) p =
     (case renderVisit POLE MAX_LAT n p of
        Inl e \<Rightarrow> Inl e
      | Inr p' \<Rightarrow> renderAll POLE MAX_LAT ns p')"

text \<open>Node \<open>y\<close> lies across side \<open>t\<close> of node \<open>x\<close> as \<open>addToRender\<close> sees it: when the
  two meet, the slot \<open>t\<close> of \<open>x\<close> is set to \<open>y\<close>, whichever of them is registering.\<close>

definition sharesSide :: "real \<Rightarrow> real \<Rightarrow> planet \<Rightarrow> ref \<Rightarrow> ref \<Rightarrow> side \<Rightarrow> bool" where
  "sharesSide POLE MAX_LAT p x y t =
     (case segment (heap p x) of
        None \<Rightarrow> False
      | Some a \<Rightarrow>
          (case segment (heap p y) of
             None \<Rightarrow> False
           | Some b \<Rightarrow>
               getCommonSide POLE MAX_LAT a b = Some t \<or>
               map_option OPSIDE (getCommonSide POLE MAX_LAT b a) = Some t))"

text \<open>The invariant of a frame over the set \<open>R\<close> of nodes registered so far: no node of
  \<open>R\<close> is its own neighbour, and every link from a node \<open>x\<close> of \<open>R\<close> goes to a node \<open>y\<close>
  of \<open>R\<close> that either links back or has a third node of \<open>R\<close> across the same side.\<close>

definition linked :: "real \<Rightarrow> real \<Rightarrow> ref set \<Rightarrow> planet \<Rightarrow> bool" where
  "linked POLE MAX_LAT R p =
     (\<forall>x\<in>R. \<forall>t y. neighbor p x t = Some y \<longrightarrow>
        y \<in> R \<and> y \<noteq> x \<and>
        (neighbor p y (OPSIDE t) = Some x \<or>
         (\<exists>c\<in>R. c \<noteq> x \<and> c \<noteq> y \<and> sharesSide POLE MAX_LAT p y c (OPSIDE t))))"

text \<open>The side on which \<open>y\<close> lies for \<open>x\<close> when \<open>x\<close> registers, read from the two
  segments; \<open>None\<close> when there is none or a segment is missing.\<close>

definition commonSide :: "real \<Rightarrow> real \<Rightarrow> planet \<Rightarrow> ref \<Rightarrow> ref \<Rightarrow> side option" where
  "commonSide POLE MAX_LAT p x y =
     (case segment (heap p x) of
        None \<Rightarrow> None
      | Some a \<Rightarrow>
          (case segment (heap p y) of
             None \<Rightarrow> None
           | Some b \<Rightarrow> getCommonSide POLE MAX_LAT a b))"

text \<open>The node that \<open>b\<close> met last on its side \<open>t\<close> in a frame that registers the
  nodes \<open>ns\<close> in this order. A node \<open>c\<close> registered after \<open>b\<close> that finds \<open>b\<close> on its
  side \<open>opposite(t)\<close> writes itself into the slot \<open>t\<close> of \<open>b\<close>: of these the one
  registered last stays. When there is none, the slot holds what \<open>b\<close> wrote when it
  registered: \<open>b\<close> scans the nodes registered before it from the newest to the oldest,
  so of those it finds on its side \<open>t\<close> the one registered first stays.\<close>

definition lastMet :: "real \<Rightarrow> real \<Rightarrow> planet \<Rightarrow> ref list \<Rightarrow> ref \<Rightarrow> side \<Rightarrow> ref option" where
  "lastMet POLE MAX_LAT p ns b t =
     (let later = filter (\<lambda>c. commonSide POLE MAX_LAT p c b = Some (OPSIDE t))
                    (tl (dropWhile (\<lambda>x. x \<noteq> b) ns));
          earlier = filter (\<lambda>c. commonSide POLE MAX_LAT p b c = Some t)
                      (takeWhile (\<lambda>x. x \<noteq> b) ns)
      in if later \<noteq> [] then Some (last later)
         else if earlier \<noteq> [] then Some (hd earlier) else None)"

text \<open>A coarse tile with finer tiles along its east side: the root \<open>[0,0]..[20,20]\<close>
  (node 0) is split into the nodes 1 to 4 (NW, NE, SW, SE), and its north-east child
  (node 2) into the nodes 5 to 8. Node 1 is \<open>[0,10]..[10,20]\<close> at zoom 1; the nodes 5
  and 7 are \<open>[10,15]..[15,20]\<close> and \<open>[10,10]..[15,15]\<close> at zoom 2.\<close>

definition lodPlanet :: planet where
  "lodPlanet =
     (case createChildrenNodes 0
             (snd (newNode plainSegment NW None 0 0 (box 0 0 20 20) emptyPlanet)) of
        Inl e \<Rightarrow> emptyPlanet
      | Inr p1 \<Rightarrow>
          (case createChildrenNodes 2 p1 of
             Inl e \<Rightarrow> emptyPlanet
           | Inr p2 \<Rightarrow> p2))"

section \<open>The states a planet can reach\<close>

text \<open>The operations of Node.js that touch neighbour slots, in any order a traversal
  can make them. Nodes are created (roots by the planet, children by
  \<open>createChildrenNodes\<close>); a frame starts with an empty list of rendered nodes; in a
  frame \<open>renderTree\<close> visits a node at most once, resets its neighbours and, when the
  node is rendered, registers it; \<open>destroy\<close> unlinks a node.\<close>

inductive reachable :: "real \<Rightarrow> real \<Rightarrow> planet \<Rightarrow> bool" for POLE MAX_LAT where
  start: "reachable POLE MAX_LAT emptyPlanet"
| create: "reachable POLE MAX_LAT p \<Longrightarrow>
     reachable POLE MAX_LAT (snd (newNode sp pid par ident z ext p))"
| children: "reachable POLE MAX_LAT p \<Longrightarrow> createChildrenNodes r p = Inr p' \<Longrightarrow>
     reachable POLE MAX_LAT p'"
| frame: "reachable POLE MAX_LAT p \<Longrightarrow> reachable POLE MAX_LAT (p\<lparr>renderedNodes := []\<rparr>)"
| visit: "reachable POLE MAX_LAT p \<Longrightarrow> n \<notin> set (renderedNodes p) \<Longrightarrow>
     renderTreeReset n p = Inr p' \<Longrightarrow> reachable POLE MAX_LAT p'"
| render: "reachable POLE MAX_LAT p \<Longrightarrow> n \<notin> set (renderedNodes p) \<Longrightarrow>
     renderVisit POLE MAX_LAT n p = Inr p' \<Longrightarrow> reachable POLE MAX_LAT p'"
| destroyed: "reachable POLE MAX_LAT p \<Longrightarrow> destroy d p = Inr p' \<Longrightarrow>
     reachable POLE MAX_LAT p'"

text \<open>Links come in pairs: if \<open>x\<close> holds \<open>y\<close> on side \<open>s\<close> and \<open>y\<close> holds \<open>x\<close>, then it
  holds it on the opposite side. The links of rendered nodes stay among the rendered
  nodes.\<close>

definition paired :: "planet \<Rightarrow> bool" where
  "paired p =
     (\<forall>x y s t. neighbor p x s = Some y \<longrightarrow> neighbor p y t = Some x \<longrightarrow> t = OPSIDE s)"

definition closedLinks :: "planet \<Rightarrow> bool" where
  "closedLinks p =
     (\<forall>x\<in>set (renderedNodes p). \<forall>t y. neighbor p x t = Some y \<longrightarrow> y \<in> set (renderedNodes p))"

text \<open>The invariant of the loop of \<open>addToRender\<close> for the registering node \<open>n\<close>.\<close>

definition registering :: "real \<Rightarrow> real \<Rightarrow> ref \<Rightarrow> ref set \<Rightarrow> planet \<Rightarrow> bool" where
  "registering POLE MAX_LAT n R p =
     (paired p \<and>
      (\<forall>x\<in>R. \<forall>t y. neighbor p x t = Some y \<longrightarrow>
         y \<in> R \<or> (y = n \<and> commonSide POLE MAX_LAT p n x = Some (OPSIDE t))) \<and>
      (\<forall>s y. neighbor p n s = Some y \<longrightarrow> y \<in> R \<and> commonSide POLE MAX_LAT p n y = Some s))"

section \<open>getEqualNeighbor\<close>

text \<open>Modelled from the spec: the tables of quadTree.js are not among the sources.
  \<open>NEIGHBOUR[side][partId]\<close> is the sibling's part when the neighbour across \<open>side\<close> is
  within the same parent, else \<open>-1\<close> (here \<open>None\<close>); \<open>OPPART[side][partId]\<close> is the
  child to descend into when the recorded path is mirrored across \<open>side\<close>. The spec
  gives \<open>NEIGHBOUR[E][NE] = -1\<close> and NW as the mirror of NE across E.\<close>

fun NEIGHBOUR :: "side \<Rightarrow> part \<Rightarrow> part option" where
  "NEIGHBOUR N NW = None"
| "NEIGHBOUR N NE = None"
| "NEIGHBOUR N SW = Some NW"
| "NEIGHBOUR N SE = Some NE"
| "NEIGHBOUR E NW = Some NE"
| "NEIGHBOUR E NE = None"
| "NEIGHBOUR E SW = Some SE"
| "NEIGHBOUR E SE = None"
| "NEIGHBOUR S NW = Some SW"
| "NEIGHBOUR S NE = Some SE"
| "NEIGHBOUR S SW = None"
| "NEIGHBOUR S SE = None"
| "NEIGHBOUR W NW = None"
| "NEIGHBOUR W NE = Some NW"
| "NEIGHBOUR W SW = None"
| "NEIGHBOUR W SE = Some SW"

fun OPPART :: "side \<Rightarrow> part \<Rightarrow> part" where
  "OPPART N NW = SW"
| "OPPART N NE = SE"
| "OPPART N SW = NW"
| "OPPART N SE = NE"
| "OPPART E NW = NE"
| "OPPART E NE = NW"
| "OPPART E SW = SE"
| "OPPART E SE = SW"
| "OPPART S NW = SW"
| "OPPART S NE = SE"
| "OPPART S SW = NW"
| "OPPART S SE = NE"
| "OPPART W NW = NE"
| "OPPART W NE = NW"
| "OPPART W SW = SE"
| "OPPART W SE = SW"

text \<open>\<open>getEqualNeighbor\<close> reads \<open>partId\<close>, \<open>parentNode\<close> and \<open>nodes\<close> only. The quadtree
  under one root is a tree: a node either has no children (its four slots are \<open>null\<close>,
  or the array is empty after \<open>destroyBranches\<close>) or the four that
  \<open>createChildrenNodes\<close> made. A node is named by the parts on the way from the root
  to it; its \<open>partId\<close> is the last of them, and the spec gives the root the part 0.\<close>

datatype qtree = Leaf | Quad qtree qtree qtree qtree

fun child :: "qtree \<Rightarrow> part \<Rightarrow> qtree option" where
  "child Leaf q = None"
| "child (Quad nw ne sw se) NW = Some nw"
| "child (Quad nw ne sw se) NE = Some ne"
| "child (Quad nw ne sw se) SW = Some sw"
| "child (Quad nw ne sw se) SE = Some se"

fun subtree :: "qtree \<Rightarrow> part list \<Rightarrow> qtree option" where
  "subtree t [] = Some t"
| "subtree t (q # qs) = (case child t q of None \<Rightarrow> None | Some c \<Rightarrow> subtree c qs)"

text \<open>\<open>pn.nodes[part]\<close> for the node \<open>pn\<close> at the path \<open>cur\<close>: the child's path, or
  \<open>None\<close> for \<open>null\<close> or \<open>undefined\<close>.\<close>

definition nodesAt :: "qtree \<Rightarrow> part list \<Rightarrow> part \<Rightarrow> part list option" where
  "nodesAt t cur q = (if subtree t (cur @ [q]) = None then None else Some (cur @ [q]))"

text \<open>\<open>while (pn && i--) { part = OPPART[side][pathId[i]]; pn = pn.nodes[part]; }\<close>
  followed by \<open>return pn\<close>: the second argument is \<open>pn\<close>, the third the entries of
  \<open>pathId\<close> still to come, the last one pushed first.\<close>

fun descend :: "qtree \<Rightarrow> side \<Rightarrow> part list option \<Rightarrow> part list \<Rightarrow> part list option" where
  "descend t sd None ids = None"
| "descend t sd (Some cur) [] = Some cur"
| "descend t sd (Some cur) (q # ids) = descend t sd (nodesAt t cur (OPPART sd q)) ids"

text \<open>The loop \<open>while (pn.parentNode)\<close>: the third argument is the path of \<open>pn\<close> read
  upwards (its own part first), the fourth is \<open>pathId\<close>. Leaving the loop returns
  \<open>undefined\<close>.\<close>

fun walkToNeighbour :: "qtree \<Rightarrow> side \<Rightarrow> part list \<Rightarrow> part list \<Rightarrow> part list option" where
  "walkToNeighbour t sd [] pathId = None"
| "walkToNeighbour t sd (q # up) pathId =
     (case NEIGHBOUR sd q of
        Some part \<Rightarrow> descend t (OPSIDE sd) (Some (rev up)) (rev (pathId @ [q]))
      | None \<Rightarrow> walkToNeighbour t sd up (pathId @ [q]))"

definition getEqualNeighbor :: "qtree \<Rightarrow> part list \<Rightarrow> side \<Rightarrow> error + part list option" where
  "getEqualNeighbor t path sd =
     (let partId = (case rev path of [] \<Rightarrow> NW | q # up \<Rightarrow> q) in
      case NEIGHBOUR sd partId of
        Some part \<Rightarrow>
          (case rev path of
             [] \<Rightarrow> Inl TypeError
           | q # up \<Rightarrow> Inr (nodesAt t (rev up) part))
      | None \<Rightarrow> Inr (walkToNeighbour t sd (rev path) []))"

text \<open>The position of a node among the nodes of its depth: the column counted from the
  west and the row counted from the north, as \<open>createChildrenNodes\<close> lays the
  quadrants out. The neighbour at the same depth across a side is the node of the same
  depth one column or one row further.\<close>

fun col :: "part \<Rightarrow> nat" where
  "col NW = 0"
| "col NE = 1"
| "col SW = 0"
| "col SE = 1"

fun row :: "part \<Rightarrow> nat" where
  "row NW = 0"
| "row NE = 0"
| "row SW = 1"
| "row SE = 1"

definition tileCol :: "part list \<Rightarrow> nat" where
  "tileCol path = foldl (\<lambda>a q. 2 * a + col q) 0 path"

definition tileRow :: "part list \<Rightarrow> nat" where
  "tileRow path = foldl (\<lambda>a q. 2 * a + row q) 0 path"

fun step :: "side \<Rightarrow> int \<times> int" where
  "step N = (0, - 1)"
| "step E = (1, 0)"
| "step S = (0, 1)"
| "step W = (- 1, 0)"

definition isNeighbour :: "side \<Rightarrow> part list \<Rightarrow> part list \<Rightarrow> bool" where
  "isNeighbour sd path other =
     (length other = length path \<and>
      int (tileCol other) = int (tileCol path) + fst (step sd) \<and>
      int (tileRow other) = int (tileRow path) + snd (step sd))"

text \<open>A root whose north-west child is split and whose north-east child is not.\<close>

definition unevenTree :: qtree where
  "unevenTree = Quad (Quad Leaf Leaf Leaf Leaf) Leaf Leaf Leaf"

text \<open>A root whose four children are all split.\<close>

definition evenTree :: qtree where
  "evenTree = Quad (Quad Leaf Leaf Leaf Leaf) (Quad Leaf Leaf Leaf Leaf)
                   (Quad Leaf Leaf Leaf Leaf) (Quad Leaf Leaf Leaf Leaf)"

section \<open>Theorems\<close>

subsection \<open>createChildrenNodes\<close>

lemma heap_setChild_newNode_other:
  "r \<noteq> createdNodesCount p \<Longrightarrow> r \<noteq> this \<Longrightarrow>
   heap (setChild this q (newNode sp pid par i z e p)) r = heap p r"
  by (simp add: setChild_def newNode_def updNode_def Let_def)

lemma heap_setChild_newNode_new:
  "this \<noteq> createdNodesCount p \<Longrightarrow>
   heap (setChild this q (newNode sp pid par i z e p)) (createdNodesCount p) =
     \<lparr>SegmentPrototype = sp, parentNode = par, partId = pid, nodeId = partIndex pid + i,
      state = None, appliedTerrainNodeId = - 1, sideSize = Some (\<lambda>_. 1),
      childrenReady = False, hasNeighbor = (\<lambda>_. False), neighbors = Some (\<lambda>_. None),
      nodes = (\<lambda>_. None), segment = Some (sp z e), cameraInside = False\<rparr>"
  by (simp add: setChild_def newNode_def updNode_def Let_def)

lemma heap_setChild_newNode_this:
  "this \<noteq> createdNodesCount p \<Longrightarrow>
   heap (setChild this q (newNode sp pid par i z e p)) this =
     (heap p this)\<lparr>nodes := (nodes (heap p this))(q := Some (createdNodesCount p))\<rparr>"
  by (simp add: setChild_def newNode_def updNode_def Let_def)





subsection \<open>getCommonSide\<close>

text \<open>Claim C7. For two extents nested in latitude whose ordinary longitude tests both
  fail, \<open>getCommonSide\<close> returns E when the zoom of \<open>this\<close> is positive and one of the
  two antimeridian configurations holds, and \<open>-1\<close> otherwise: the polar-wrap rules never
  return W.\<close>

theorem getCommonSide_polar_wrap:
  assumes nested:
      "lat (northEast (extent a)) \<le> lat (northEast (extent b)) \<and>
         lat (southWest (extent a)) \<ge> lat (southWest (extent b)) \<or>
       lat (northEast (extent a)) \<ge> lat (northEast (extent b)) \<and>
         lat (southWest (extent a)) \<le> lat (southWest (extent b))"
    and not_east: "lon (northEast (extent a)) \<noteq> lon (southWest (extent b))"
    and not_west: "lon (southWest (extent a)) \<noteq> lon (northEast (extent b))"
  shows "getCommonSide POLE MAX_LAT a b =
           (if tileZoom a > 0 \<and>
               (lon (northEast (extent a)) = POLE \<and> lon (southWest (extent b)) = - POLE \<or>
                lon (southWest (extent a)) = - POLE \<and> lon (northEast (extent b)) = POLE)
            then Some E else None) \<and>
         getCommonSide POLE MAX_LAT a b \<noteq> Some W"
  using assms by (auto simp add: getCommonSide_def Let_def)

theorem getCommonSide_polar_wrap_witness:
  "getCommonSide 180 85 (plainSegment 1 (box (-180) 0 (-90) 90))
       (plainSegment 1 (box 90 0 180 90)) = Some E \<and>
   getCommonSide 180 85 (plainSegment 1 (box 90 0 180 90))
       (plainSegment 1 (box (-180) 0 (-90) 90)) = Some E \<and>
   getCommonSide 180 85 (plainSegment 0 (box (-180) 0 (-90) 90))
       (plainSegment 1 (box 90 0 180 90)) = None"
  using getCommonSide_polar_wrap [of "plainSegment 1 (box (-180) 0 (-90) 90)"
            "plainSegment 1 (box 90 0 180 90)" 180 85]
    getCommonSide_polar_wrap [of "plainSegment 1 (box 90 0 180 90)"
            "plainSegment 1 (box (-180) 0 (-90) 90)" 180 85]
    getCommonSide_polar_wrap [of "plainSegment 0 (box (-180) 0 (-90) 90)"
            "plainSegment 1 (box 90 0 180 90)" 180 85]
  by (simp add: plainSegment_def box_def)

subsection \<open>addToRender\<close>

lemma heap_updNode: "heap (updNode r f p) = (heap p)(r := f (heap p r))"
  by (simp add: updNode_def)

lemma renderedNodes_updNode: "renderedNodes (updNode r f p) = renderedNodes p"
  by (simp add: updNode_def)

text \<open>The effect of an encounter in which the negotiation runs, and of one in which
  it is skipped.\<close>

lemma encounter_negotiates:
  assumes "node \<noteq> ni"
    and "segment (heap p node) = Some ap" and "segment (heap p ni) = Some bp"
    and "neighbors (heap p node) = Some na" and "neighbors (heap p ni) = Some nb"
    and "sideSize (heap p node) = Some sa" and "sideSize (heap p ni) = Some sb"
    and "getCommonSide POLE MAX_LAT ap bp = Some cs"
    and "\<not> (hasNeighbor (heap p node) cs \<and> hasNeighbor (heap p ni) (OPSIDE cs))"
  shows "encounter POLE MAX_LAT node ni p =
     Inr (p\<lparr>heap := (heap p)
        (node := (heap p node)\<lparr>neighbors := Some (na(cs := Some ni)),
                    hasNeighbor := (hasNeighbor (heap p node))(cs := True),
                    sideSize := Some (sa(cs := fst (negotiate ap bp)))\<rparr>,
         ni := (heap p ni)\<lparr>neighbors := Some (nb(OPSIDE cs := Some node)),
                    hasNeighbor := (hasNeighbor (heap p ni))(OPSIDE cs := True),
                    sideSize := Some (sb(OPSIDE cs := snd (negotiate ap bp)))\<rparr>)\<rparr>)"
  using assms
  by (auto simp add: encounter_def Let_def setNeighbor_def setSideSize_def setHasNeighbor_def
      heap_updNode updNode_def fun_upd_twist)

lemma encounter_skips:
  assumes "segment (heap p node) = Some ap" and "segment (heap p ni) = Some bp"
    and "neighbors (heap p node) = Some na" and "neighbors (heap p ni) = Some nb"
    and "getCommonSide POLE MAX_LAT ap bp = Some cs"
    and "hasNeighbor (heap p node) cs" and "hasNeighbor (heap p ni) (OPSIDE cs)"
  shows "\<exists>p'. encounter POLE MAX_LAT node ni p = Inr p' \<and>
     (\<forall>r. sideSize (heap p' r) = sideSize (heap p r)) \<and>
     (\<forall>r. hasNeighbor (heap p' r) = hasNeighbor (heap p r))"
  using assms
  by (auto simp add: encounter_def Let_def setNeighbor_def setSideSize_def setHasNeighbor_def
      heap_updNode updNode_def)

lemma sideSizeAt_renderedNodes_update [simp]:
  "sideSizeAt (p\<lparr>renderedNodes := xs\<rparr>) = sideSizeAt p"
  by (simp add: sideSizeAt_def fun_eq_iff)

lemma OPSIDE_involution [simp]: "OPSIDE (OPSIDE s) = s"
  by (cases s) simp_all

lemma OPSIDE_inject [simp]: "OPSIDE s = OPSIDE t \<longleftrightarrow> s = t"
  by (cases s; cases t) simp_all

lemma setNeighbor_neighbor:
  "setNeighbor x s v p = Inr p1 \<Longrightarrow>
   neighbor p1 y t = (if y = x \<and> t = s then v else neighbor p y t)"
  by (cases "y = x") (auto simp add: setNeighbor_def neighbor_def updNode_def split: option.splits)

lemma setNeighbor_frame:
  "setNeighbor x s v p = Inr p1 \<Longrightarrow>
   segment (heap p1 r) = segment (heap p r) \<and> renderedNodes p1 = renderedNodes p"
  by (cases "r = x") (auto simp add: setNeighbor_def updNode_def split: option.splits)

lemma setSideSize_frame:
  "setSideSize x s v p = Inr p1 \<Longrightarrow>
   neighbor p1 y = neighbor p y \<and> segment (heap p1 y) = segment (heap p y) \<and>
   renderedNodes p1 = renderedNodes p"
  by (cases "y = x")
    (auto simp add: setSideSize_def neighbor_def updNode_def fun_eq_iff split: option.splits)

lemma setHasNeighbor_frame:
  "neighbor (setHasNeighbor x s p) y = neighbor p y \<and>
   segment (heap (setHasNeighbor x s p) y) = segment (heap p y) \<and>
   renderedNodes (setHasNeighbor x s p) = renderedNodes p"
  by (cases "y = x") (auto simp add: setHasNeighbor_def neighbor_def updNode_def fun_eq_iff)

text \<open>What an encounter does to the neighbour slots, and what it leaves alone.\<close>

lemma encounter_effect:
  assumes enc: "encounter POLE MAX_LAT node ni p = Inr p'"
  shows "\<exists>ap bp. segment (heap p node) = Some ap \<and> segment (heap p ni) = Some bp \<and>
     (\<forall>r. segment (heap p' r) = segment (heap p r)) \<and>
     renderedNodes p' = renderedNodes p \<and>
     (case getCommonSide POLE MAX_LAT ap bp of
        None \<Rightarrow> neighbor p' = neighbor p
      | Some cs \<Rightarrow>
          (\<forall>x t. neighbor p' x t =
             (if x = ni \<and> t = OPSIDE cs then Some node
              else if x = node \<and> t = cs then Some ni
              else neighbor p x t)))"
proof -
  from enc obtain ap where ap: "segment (heap p node) = Some ap"
    by (auto simp add: encounter_def split: option.splits)
  from enc ap obtain bp where bp: "segment (heap p ni) = Some bp"
    by (auto simp add: encounter_def split: option.splits)
  show ?thesis
  proof (cases "getCommonSide POLE MAX_LAT ap bp")
    case None
    with enc ap bp have "p' = p" by (simp add: encounter_def)
    with ap bp None show ?thesis by simp
  next
    case (Some cs)
    from enc ap bp Some obtain p1 where p1: "setNeighbor node cs (Some ni) p = Inr p1"
      by (auto simp add: encounter_def Let_def split: sum.splits)
    from enc ap bp Some p1 obtain p2 where p2: "setNeighbor ni (OPSIDE cs) (Some node) p1 = Inr p2"
      by (auto simp add: encounter_def Let_def split: sum.splits)
    have n2: "neighbor p2 x t =
             (if x = ni \<and> t = OPSIDE cs then Some node
              else if x = node \<and> t = cs then Some ni
              else neighbor p x t)" for x t
      by (simp add: setNeighbor_neighbor [OF p2] setNeighbor_neighbor [OF p1])
    have f2: "segment (heap p2 r) = segment (heap p r)" "renderedNodes p2 = renderedNodes p" for r
      using setNeighbor_frame [OF p2] setNeighbor_frame [OF p1] by simp_all
    have "(\<forall>r. neighbor p' r = neighbor p2 r) \<and>
          (\<forall>r. segment (heap p' r) = segment (heap p2 r)) \<and>
          renderedNodes p' = renderedNodes p2"
    proof (cases "hasNeighbor (heap p2 node) cs \<and> hasNeighbor (heap p2 ni) (OPSIDE cs)")
      case True
      with enc ap bp Some p1 p2 have "p' = p2" by (simp add: encounter_def Let_def)
      then show ?thesis by simp
    next
      case False
      define p3 where "p3 = setHasNeighbor ni (OPSIDE cs) (setHasNeighbor node cs p2)"
      from enc ap bp Some p1 p2 False obtain p4 where
        p4: "setSideSize node cs (fst (negotiate ap bp)) p3 = Inr p4"
        and p5: "setSideSize ni (OPSIDE cs) (snd (negotiate ap bp)) p4 = Inr p'"
        by (auto simp add: encounter_def Let_def p3_def split: sum.splits)
      have "(\<forall>r. neighbor p3 r = neighbor p2 r) \<and>
          (\<forall>r. segment (heap p3 r) = segment (heap p2 r)) \<and>
          renderedNodes p3 = renderedNodes p2"
        by (simp add: p3_def setHasNeighbor_frame)
      with setSideSize_frame [OF p4] setSideSize_frame [OF p5] show ?thesis
        by simp
    qed
    with n2 f2 ap bp Some show ?thesis by simp
  qed
qed

lemma addToRenderLoop_append:
  "addToRenderLoop POLE MAX_LAT node (xs @ ys) p =
     (case addToRenderLoop POLE MAX_LAT node xs p of
        Inl e \<Rightarrow> Inl e
      | Inr q \<Rightarrow> addToRenderLoop POLE MAX_LAT node ys q)"
  by (induction xs arbitrary: p) (auto split: sum.splits)

lemma encounter_nonnull:
  assumes enc: "encounter POLE MAX_LAT node ni p = Inr p'"
    and ap: "segment (heap p node) = Some ap" and bp: "segment (heap p ni) = Some bp"
    and cs: "getCommonSide POLE MAX_LAT ap bp = Some cs"
  shows "neighbors (heap p node) \<noteq> None \<and> neighbors (heap p ni) \<noteq> None"
  using assms
  by (cases "node = ni")
    (auto simp add: encounter_def Let_def setNeighbor_def updNode_def
      split: option.splits sum.splits if_splits)

lemma encounter_sizes_nonnull:
  assumes enc: "encounter POLE MAX_LAT node ni p = Inr p'"
    and ap: "segment (heap p node) = Some ap" and bp: "segment (heap p ni) = Some bp"
    and cs: "getCommonSide POLE MAX_LAT ap bp = Some cs"
    and guard: "\<not> (hasNeighbor (heap p node) cs \<and> hasNeighbor (heap p ni) (OPSIDE cs))"
  shows "sideSize (heap p node) \<noteq> None \<and> sideSize (heap p ni) \<noteq> None"
  using assms
  by (cases "node = ni")
    (auto simp add: encounter_def Let_def setNeighbor_def setSideSize_def setHasNeighbor_def
      updNode_def split: option.splits sum.splits if_splits)

lemma encounter_sides:
  assumes enc: "encounter POLE MAX_LAT node ni p = Inr p'" and ne: "node \<noteq> ni"
    and ap: "segment (heap p node) = Some ap" and bp: "segment (heap p ni) = Some bp"
  shows "case getCommonSide POLE MAX_LAT ap bp of
      None \<Rightarrow> p' = p
    | Some cs \<Rightarrow>
       if hasNeighbor (heap p node) cs \<and> hasNeighbor (heap p ni) (OPSIDE cs)
       then \<forall>r. sideSize (heap p' r) = sideSize (heap p r) \<and>
                hasNeighbor (heap p' r) = hasNeighbor (heap p r)
       else (\<forall>r s. sideSizeAt p' r s =
               (if r = node \<and> s = cs then Some (fst (negotiate ap bp))
                else if r = ni \<and> s = OPSIDE cs then Some (snd (negotiate ap bp))
                else sideSizeAt p r s)) \<and>
            (\<forall>r s. hasNeighbor (heap p' r) s =
               (hasNeighbor (heap p r) s \<or> r = node \<and> s = cs \<or> r = ni \<and> s = OPSIDE cs))"
proof (cases "getCommonSide POLE MAX_LAT ap bp")
  case None
  with enc ap bp show ?thesis by (simp add: encounter_def)
next
  case (Some cs)
  from encounter_nonnull [OF enc ap bp Some] obtain na nb where
    na: "neighbors (heap p node) = Some na" and nb: "neighbors (heap p ni) = Some nb"
    by auto
  show ?thesis
  proof (cases "hasNeighbor (heap p node) cs \<and> hasNeighbor (heap p ni) (OPSIDE cs)")
    case True
    with encounter_skips [OF ap bp na nb Some] enc Some show ?thesis by auto
  next
    case False
    from encounter_sizes_nonnull [OF enc ap bp Some False] obtain sa sb where
      sa: "sideSize (heap p node) = Some sa" and sb: "sideSize (heap p ni) = Some sb"
      by auto
    note e = encounter_negotiates [OF ne ap bp na nb sa sb Some False]
    from e enc have p': "p' = p\<lparr>heap := (heap p)
        (node := (heap p node)\<lparr>neighbors := Some (na(cs := Some ni)),
                    hasNeighbor := (hasNeighbor (heap p node))(cs := True),
                    sideSize := Some (sa(cs := fst (negotiate ap bp)))\<rparr>,
         ni := (heap p ni)\<lparr>neighbors := Some (nb(OPSIDE cs := Some node)),
                    hasNeighbor := (hasNeighbor (heap p ni))(OPSIDE cs := True),
                    sideSize := Some (sb(OPSIDE cs := snd (negotiate ap bp)))\<rparr>)\<rparr>"
      by simp
    have "sideSizeAt p' r s =
               (if r = node \<and> s = cs then Some (fst (negotiate ap bp))
                else if r = ni \<and> s = OPSIDE cs then Some (snd (negotiate ap bp))
                else sideSizeAt p r s)" for r s
      using ne sa sb by (simp add: p' sideSizeAt_def)
    moreover have "hasNeighbor (heap p' r) s =
               (hasNeighbor (heap p r) s \<or> r = node \<and> s = cs \<or> r = ni \<and> s = OPSIDE cs)" for r s
      using ne by (auto simp add: p')
    ultimately show ?thesis using Some False by auto
  qed
qed

lemma encounter_segments:
  "encounter POLE MAX_LAT node ni p = Inr p' \<Longrightarrow> segment (heap p' r) = segment (heap p r)"
  using encounter_effect [of POLE MAX_LAT node ni p p'] by blast

lemma encounter_flag_mono:
  assumes enc: "encounter POLE MAX_LAT node ni p = Inr p'" and ne: "node \<noteq> ni"
    and flag: "hasNeighbor (heap p r) s"
  shows "hasNeighbor (heap p' r) s"
proof -
  from encounter_effect [OF enc] obtain ap bp where
    ap: "segment (heap p node) = Some ap" and bp: "segment (heap p ni) = Some bp"
    by blast
  from encounter_sides [OF enc ne ap bp] flag show ?thesis
    by (cases "getCommonSide POLE MAX_LAT ap bp") (auto split: if_splits)
qed

lemma encounter_other:
  assumes enc: "encounter POLE MAX_LAT node ni p = Inr p'" and ne: "node \<noteq> ni"
    and r: "r \<noteq> node" "r \<noteq> ni"
  shows "sideSizeAt p' r s = sideSizeAt p r s \<and> hasNeighbor (heap p' r) s = hasNeighbor (heap p r) s"
proof -
  from encounter_effect [OF enc] obtain ap bp where
    ap: "segment (heap p node) = Some ap" and bp: "segment (heap p ni) = Some bp"
    by blast
  from encounter_sides [OF enc ne ap bp] r show ?thesis
    by (cases "getCommonSide POLE MAX_LAT ap bp") (auto simp add: sideSizeAt_def split: if_splits)
qed

lemma encounter_keeps_side:
  assumes enc: "encounter POLE MAX_LAT node ni p = Inr p'" and ne: "node \<noteq> ni"
    and ap: "segment (heap p node) = Some ap" and bp: "segment (heap p ni) = Some bp"
    and set: "getCommonSide POLE MAX_LAT ap bp = Some cs \<longrightarrow>
                hasNeighbor (heap p node) cs \<and> hasNeighbor (heap p ni) (OPSIDE cs)"
  shows "sideSizeAt p' node cs = sideSizeAt p node cs"
  using encounter_sides [OF enc ne ap bp] set ne
  by (cases "getCommonSide POLE MAX_LAT ap bp") (auto simp add: sideSizeAt_def split: if_splits)

lemma addToRenderLoop_keeps:
  assumes "addToRenderLoop POLE MAX_LAT node xs q = Inr q'" and "node \<notin> set xs"
  shows "(\<forall>r. segment (heap q' r) = segment (heap q r)) \<and>
     (\<forall>r s. hasNeighbor (heap q r) s \<longrightarrow> hasNeighbor (heap q' r) s) \<and>
     (\<forall>r s. r \<noteq> node \<longrightarrow> r \<notin> set xs \<longrightarrow>
        sideSizeAt q' r s = sideSizeAt q r s \<and>
        hasNeighbor (heap q' r) s = hasNeighbor (heap q r) s)"
  using assms
proof (induction xs arbitrary: q)
  case Nil
  then show ?case by simp
next
  case (Cons ni rest)
  from Cons.prems(1) obtain q1 where
    e: "encounter POLE MAX_LAT node ni q = Inr q1"
    and l: "addToRenderLoop POLE MAX_LAT node rest q1 = Inr q'"
    by (auto split: sum.splits)
  from Cons.prems(2) have ne: "node \<noteq> ni" and nr: "node \<notin> set rest" by auto
  note IH = Cons.IH [OF l nr]
  note s = encounter_segments [OF e]
  note m = encounter_flag_mono [OF e ne]
  note o = encounter_other [OF e ne]
  from IH s m o show ?case by auto
qed

lemma addToRenderLoop_keeps_side:
  assumes "addToRenderLoop POLE MAX_LAT node xs q = Inr q'" and "node \<notin> set xs"
    and "segment (heap q node) = Some ap" and "hasNeighbor (heap q node) cs"
    and "\<forall>nj\<in>set xs. \<forall>bj. segment (heap q nj) = Some bj \<longrightarrow>
           getCommonSide POLE MAX_LAT ap bj = Some cs \<longrightarrow> hasNeighbor (heap q nj) (OPSIDE cs)"
  shows "sideSizeAt q' node cs = sideSizeAt q node cs"
  using assms
proof (induction xs arbitrary: q)
  case Nil
  then show ?case by simp
next
  case (Cons ni rest)
  from Cons.prems(1) obtain q1 where
    e: "encounter POLE MAX_LAT node ni q = Inr q1"
    and l: "addToRenderLoop POLE MAX_LAT node rest q1 = Inr q'"
    by (auto split: sum.splits)
  from Cons.prems(2) have ne: "node \<noteq> ni" and nr: "node \<notin> set rest" by auto
  from encounter_effect [OF e] obtain bp where bp: "segment (heap q ni) = Some bp"
    by blast
  from Cons.prems(5) bp have
    "getCommonSide POLE MAX_LAT ap bp = Some cs \<longrightarrow> hasNeighbor (heap q ni) (OPSIDE cs)"
    by simp
  with Cons.prems(4) have set: "getCommonSide POLE MAX_LAT ap bp = Some cs \<longrightarrow>
                hasNeighbor (heap q node) cs \<and> hasNeighbor (heap q ni) (OPSIDE cs)"
    by simp
  note k = encounter_keeps_side [OF e ne Cons.prems(3) bp set]
  note s = encounter_segments [OF e]
  note m = encounter_flag_mono [OF e ne]
  have a1: "segment (heap q1 node) = Some ap" using Cons.prems(3) by (simp add: s)
  have f1: "hasNeighbor (heap q1 node) cs" using Cons.prems(4) by (rule m)
  have q1: "\<forall>nj\<in>set rest. \<forall>bj. segment (heap q1 nj) = Some bj \<longrightarrow>
           getCommonSide POLE MAX_LAT ap bj = Some cs \<longrightarrow> hasNeighbor (heap q1 nj) (OPSIDE cs)"
    using Cons.prems(5) m by (simp add: s)
  from Cons.IH [OF l nr a1 f1 q1] k show ?case by simp
qed

lemma negotiate_values:
  assumes "gridSize bp > 0"
  shows "negotiate ap bp =
     (let ld = real (gridSize ap) / (real (gridSize bp) * 2 powi (tileZoom bp - tileZoom ap))
      in if ld > 1 then (\<lceil>real (gridSize ap) / ld\<rceil>, int (gridSize bp))
         else if ld < 1 then (int (gridSize ap), \<lceil>real (gridSize bp) * ld\<rceil>)
         else (int (gridSize ap), int (gridSize bp)))"
  using assms by (simp add: negotiate_def seamRatio_def Let_def)

lemma addToRender_through:
  assumes run: "addToRender POLE MAX_LAT node p = Inr p'"
    and once: "distinct (renderedNodes p)"
    and fresh: "node \<notin> set (renderedNodes p)"
    and order: "renderedNodes p = earlier @ ni # later"
    and reach: "addToRenderLoop POLE MAX_LAT node (rev later)
                  (updNode node (\<lambda>n. n\<lparr>state := Some RENDERING\<rparr>) p) = Inr p1"
    and ap: "segment (heap p node) = Some ap" and bp: "segment (heap p ni) = Some bp"
    and cs: "getCommonSide POLE MAX_LAT ap bp = Some cs"
    and runs: "\<not> (hasNeighbor (heap p1 node) cs \<and> hasNeighbor (heap p1 ni) (OPSIDE cs))"
  shows "sideSizeAt p' ni (OPSIDE cs) = Some (snd (negotiate ap bp)) \<and>
     (unopposed POLE MAX_LAT p ap cs earlier \<longrightarrow>
        sideSizeAt p' node cs = Some (fst (negotiate ap bp)))"
proof -
  define p0 where "p0 = updNode node (\<lambda>n. n\<lparr>state := Some RENDERING\<rparr>) p"
  have r0: "renderedNodes p0 = renderedNodes p"
    and s0: "segment (heap p0 r) = segment (heap p r)"
    and h0: "hasNeighbor (heap p0 r) = hasNeighbor (heap p r)" for r
    by (simp_all add: p0_def updNode_def)
  from run obtain pl where
    loop: "addToRenderLoop POLE MAX_LAT node (rev (renderedNodes p0)) p0 = Inr pl"
    and p': "p' = pl\<lparr>renderedNodes := renderedNodes pl @ [node]\<rparr>"
    by (auto simp add: addToRender_def Let_def p0_def split: sum.splits)
  have scan: "rev (renderedNodes p0) = rev later @ ni # rev earlier"
    by (simp add: r0 order)
  from reach have reach0: "addToRenderLoop POLE MAX_LAT node (rev later) p0 = Inr p1"
    by (simp add: p0_def)
  from loop reach0 have rest: "addToRenderLoop POLE MAX_LAT node (ni # rev earlier) p1 = Inr pl"
    by (simp add: scan addToRenderLoop_append)
  then obtain p2 where
    enc: "encounter POLE MAX_LAT node ni p1 = Inr p2"
    and tail: "addToRenderLoop POLE MAX_LAT node (rev earlier) p2 = Inr pl"
    by (auto split: sum.splits)
  from fresh order have ne: "node \<noteq> ni" and n1: "node \<notin> set (rev later)"
    and n2: "node \<notin> set (rev earlier)"
    by auto
  from once order have i2: "ni \<notin> set (rev earlier)" by auto
  note k1 = addToRenderLoop_keeps [OF reach0 n1]
  note k2 = addToRenderLoop_keeps [OF tail n2]
  from k1 have s1: "segment (heap p1 r) = segment (heap p r)" for r by (simp add: s0)
  have s2: "segment (heap p2 r) = segment (heap p r)" for r
    by (simp add: encounter_segments [OF enc] s1)
  have ap1: "segment (heap p1 node) = Some ap" and bp1: "segment (heap p1 ni) = Some bp"
    by (simp_all add: s1 ap bp)
  from encounter_sides [OF enc ne ap1 bp1] cs runs have
    a: "sideSizeAt p2 node cs = Some (fst (negotiate ap bp))"
    and b: "sideSizeAt p2 ni (OPSIDE cs) = Some (snd (negotiate ap bp))"
    and f: "hasNeighbor (heap p2 node) cs"
    using ne by auto
  from k2 ne i2 have "sideSizeAt pl ni (OPSIDE cs) = sideSizeAt p2 ni (OPSIDE cs)"
    by auto
  with b have first: "sideSizeAt p' ni (OPSIDE cs) = Some (snd (negotiate ap bp))"
    by (simp add: p')
  have second: "sideSizeAt p' node cs = Some (fst (negotiate ap bp))"
    if u: "unopposed POLE MAX_LAT p ap cs earlier"
  proof -
    have mono: "hasNeighbor (heap p r) s \<Longrightarrow> hasNeighbor (heap p2 r) s" for r s
      using k1 encounter_flag_mono [OF enc ne] by (simp add: h0)
    have q: "\<forall>nj\<in>set (rev earlier). \<forall>bj. segment (heap p2 nj) = Some bj \<longrightarrow>
           getCommonSide POLE MAX_LAT ap bj = Some cs \<longrightarrow> hasNeighbor (heap p2 nj) (OPSIDE cs)"
      using u mono by (auto simp add: unopposed_def s2 split: option.splits)
    have a2: "segment (heap p2 node) = Some ap" by (simp add: s2 ap)
    from addToRenderLoop_keeps_side [OF tail n2 a2 f q] a show ?thesis
      by (simp add: p')
  qed
  from first second show ?thesis by blast
qed

lemma seamPlanet_facts:
  "segment (heap seamPlanet 0) = Some (gridSegment 32 EPSG3857 5 (box 40 0 50 10))"
  "segment (heap seamPlanet 1) = Some (gridSegment 32 EPSG3857 3 (box 0 0 40 40))"
  "neighbors (heap seamPlanet 0) = Some (\<lambda>_. None)"
  "neighbors (heap seamPlanet 1) = Some (\<lambda>_. None)"
  "sideSize (heap seamPlanet 0) = Some (\<lambda>_. 1)"
  "sideSize (heap seamPlanet 1) = Some (\<lambda>_. 1)"
  "hasNeighbor (heap seamPlanet 0) = (\<lambda>_. False)"
  "hasNeighbor (heap seamPlanet 1) = (\<lambda>_. False)"
  by (simp_all add: seamPlanet_def newNode_def emptyPlanet_def Let_def)

lemma seam_common_side:
  "getCommonSide 180 85 (gridSegment 32 EPSG3857 5 (box 40 0 50 10))
     (gridSegment 32 EPSG3857 3 (box 0 0 40 40)) = Some W"
  by (simp add: getCommonSide_def gridSegment_def plainSegment_def box_def Let_def)

lemma seam_ratio_4:
  "seamRatio (gridSegment 32 EPSG3857 5 (box 40 0 50 10))
     (gridSegment 32 EPSG3857 3 (box 0 0 40 40)) = 4"
  by (simp add: seamRatio_def gridSegment_def plainSegment_def power_int_def power2_eq_square)

lemma twoSeamPlanet_facts:
  "segment (heap twoSeamPlanet 0) = Some (gridSegment 32 EPSG3857 4 (box 40 0 60 20))"
  "segment (heap twoSeamPlanet 1) = Some (gridSegment 32 EPSG3857 5 (box 30 0 40 10))"
  "segment (heap twoSeamPlanet 2) = Some (gridSegment 8 EPSG3857 5 (box 30 10 40 20))"
  "neighbors (heap twoSeamPlanet 0) = Some (\<lambda>_. None)"
  "neighbors (heap twoSeamPlanet 1) = Some (\<lambda>_. None)"
  "neighbors (heap twoSeamPlanet 2) = Some (\<lambda>_. None)"
  "sideSize (heap twoSeamPlanet 0) = Some (\<lambda>_. 1)"
  "sideSize (heap twoSeamPlanet 1) = Some (\<lambda>_. 1)"
  "sideSize (heap twoSeamPlanet 2) = Some (\<lambda>_. 1)"
  "hasNeighbor (heap twoSeamPlanet 0) = (\<lambda>_. False)"
  "hasNeighbor (heap twoSeamPlanet 1) = (\<lambda>_. False)"
  "hasNeighbor (heap twoSeamPlanet 2) = (\<lambda>_. False)"
  "renderedNodes twoSeamPlanet = [1, 2]"
  by (simp_all add: twoSeamPlanet_def newNode_def emptyPlanet_def Let_def)

lemma two_common_side:
  "getCommonSide 180 85 (gridSegment 32 EPSG3857 4 (box 40 0 60 20))
     (gridSegment 8 EPSG3857 5 (box 30 10 40 20)) = Some W"
  "getCommonSide 180 85 (gridSegment 32 EPSG3857 4 (box 40 0 60 20))
     (gridSegment 32 EPSG3857 5 (box 30 0 40 10)) = Some W"
  by (simp_all add: getCommonSide_def gridSegment_def plainSegment_def box_def Let_def)

lemma two_negotiate:
  "negotiate (gridSegment 32 EPSG3857 4 (box 40 0 60 20))
     (gridSegment 8 EPSG3857 5 (box 30 10 40 20)) = (16, 8)"
  "negotiate (gridSegment 32 EPSG3857 4 (box 40 0 60 20))
     (gridSegment 32 EPSG3857 5 (box 30 0 40 10)) = (32, 16)"
  by (simp_all add: negotiate_def seamRatio_def Let_def gridSegment_def plainSegment_def)

lemma two_run:
  "\<exists>p'. addToRender 180 85 0 twoSeamPlanet = Inr p' \<and>
     sideSizeAt p' 0 W = Some 32 \<and> sideSizeAt p' 2 E = Some 8 \<and> sideSizeAt p' 1 E = Some 16"
proof -
  define p0 where "p0 = updNode 0 (\<lambda>n. n\<lparr>state := Some RENDERING\<rparr>) twoSeamPlanet"
  have f0:
    "segment (heap p0 0) = Some (gridSegment 32 EPSG3857 4 (box 40 0 60 20))"
    "segment (heap p0 2) = Some (gridSegment 8 EPSG3857 5 (box 30 10 40 20))"
    "neighbors (heap p0 0) = Some (\<lambda>_. None)"
    "neighbors (heap p0 2) = Some (\<lambda>_. None)"
    "sideSize (heap p0 0) = Some (\<lambda>_. 1)"
    "sideSize (heap p0 2) = Some (\<lambda>_. 1)"
    and g0: "\<not> (hasNeighbor (heap p0 0) W \<and> hasNeighbor (heap p0 2) (OPSIDE W))"
    and r0: "renderedNodes p0 = [1, 2]"
    and o0: "segment (heap p0 1) = Some (gridSegment 32 EPSG3857 5 (box 30 0 40 10))"
      "neighbors (heap p0 1) = Some (\<lambda>_. None)" "sideSize (heap p0 1) = Some (\<lambda>_. 1)"
      "hasNeighbor (heap p0 1) = (\<lambda>_. False)"
    by (simp_all add: p0_def heap_updNode renderedNodes_updNode twoSeamPlanet_facts
        del: One_nat_def)
  have ne: "(0::nat) \<noteq> 2" "(0::nat) \<noteq> 1" by simp_all
  note e1 = encounter_negotiates [OF ne(1) f0 two_common_side(1) g0]
  define p1 where "p1 = p0\<lparr>heap := (heap p0)
        (0 := (heap p0 0)\<lparr>neighbors := Some ((\<lambda>_. None)(W := Some 2)),
                    hasNeighbor := (hasNeighbor (heap p0 0))(W := True),
                    sideSize := Some ((\<lambda>_. 1)(W := 16))\<rparr>,
         2 := (heap p0 2)\<lparr>neighbors := Some ((\<lambda>_. None)(OPSIDE W := Some 0)),
                    hasNeighbor := (hasNeighbor (heap p0 2))(OPSIDE W := True),
                    sideSize := Some ((\<lambda>_. 1)(OPSIDE W := 8))\<rparr>)\<rparr>"
  have e1': "encounter 180 85 0 2 p0 = Inr p1"
    unfolding p1_def using e1 by (simp add: two_negotiate)
  have f1:
    "segment (heap p1 0) = Some (gridSegment 32 EPSG3857 4 (box 40 0 60 20))"
    "segment (heap p1 1) = Some (gridSegment 32 EPSG3857 5 (box 30 0 40 10))"
    "neighbors (heap p1 0) = Some ((\<lambda>_. None)(W := Some 2))"
    "neighbors (heap p1 1) = Some (\<lambda>_. None)"
    "sideSize (heap p1 0) = Some ((\<lambda>_. 1)(W := 16))"
    "sideSize (heap p1 1) = Some (\<lambda>_. 1)"
    and g1: "\<not> (hasNeighbor (heap p1 0) W \<and> hasNeighbor (heap p1 1) (OPSIDE W))"
    and r1: "renderedNodes p1 = [1, 2]"
    and s1: "sideSize (heap p1 2) = Some ((\<lambda>_. 1)(E := 8))"
    by (simp_all add: p1_def f0 o0 r0 del: One_nat_def)
  note e2 = encounter_negotiates [OF ne(2) f1 two_common_side(2) g1]
  show ?thesis
    by (simp add: addToRender_def Let_def p0_def[symmetric] r0 e1' e2 two_negotiate
        sideSizeAt_def s1 del: One_nat_def)
qed

lemma seam_run:
  "\<exists>p'. addToRender 180 85 0 seamPlanet = Inr p'"
proof -
  define p where "p = updNode 0 (\<lambda>n. n\<lparr>state := Some RENDERING\<rparr>) seamPlanet"
  have facts:
    "segment (heap p 0) = Some (gridSegment 32 EPSG3857 5 (box 40 0 50 10))"
    "segment (heap p 1) = Some (gridSegment 32 EPSG3857 3 (box 0 0 40 40))"
    "neighbors (heap p 0) = Some (\<lambda>_. None)"
    "neighbors (heap p 1) = Some (\<lambda>_. None)"
    "sideSize (heap p 0) = Some (\<lambda>_. 1)"
    "sideSize (heap p 1) = Some (\<lambda>_. 1)"
    and f: "\<not> (hasNeighbor (heap p 0) W \<and> hasNeighbor (heap p 1) (OPSIDE W))"
    and r: "renderedNodes p = [1]"
    by (simp_all add: p_def heap_updNode renderedNodes_updNode seamPlanet_facts
        del: One_nat_def) (simp add: seamPlanet_def)
  have ne: "(0::nat) \<noteq> 1" by simp
  note e = encounter_negotiates [OF ne facts seam_common_side f]
  show ?thesis
    by (simp add: addToRender_def Let_def p_def[symmetric] r e del: One_nat_def)
qed

text \<open>Claim C1, as amended. Let \<open>ni\<close> be a registered node that shares the side \<open>cs\<close>
  with the registering node, and let the negotiation run when the loop of
  \<open>addToRender\<close> reaches \<open>ni\<close> (\<open>p1\<close> is the state at that moment). With
  \<open>ld = gridSize / (ni.gridSize * 2^(ni.tileZoom - tileZoom))\<close>, when \<open>addToRender\<close>
  returns the side \<open>opposite(cs)\<close> of \<open>ni\<close> holds the grid size of \<open>ni\<close> for
  \<open>ld \<ge> 1\<close> and \<open>ceil(ni.gridSize * ld)\<close> for \<open>ld < 1\<close>. The side \<open>cs\<close> of the
  registering node holds \<open>ceil(gridSize / ld)\<close> for \<open>ld > 1\<close> and its own grid size
  otherwise, unless a node registered before \<open>ni\<close> shares the same side with the
  registering node and has its flag \<open>hasNeighbor[opposite(cs)]\<close> not set: the loop
  reaches that node later, negotiates again and overwrites the slot. Each node is
  registered once and the registering node is not registered yet. The theorem is stated
  where the doubles of the source compute without rounding: grid sizes that are powers
  of two, zoom levels from 0 to 255. In the counterexample to the claim as stated the
  registering node has two finer tiles on its west side, of grid sizes 32 and 8: the
  negotiation with the second gives \<open>ld = 2\<close> and the side size 16, the negotiation
  with the first overwrites it with 32. In the witness a node at zoom 5 meets a
  neighbour at zoom 3, both of grid size 32: \<open>ld = 4\<close>, and the sides become 8 and 32.\<close>

theorem addToRender_seam_sizes:
  assumes run: "addToRender POLE MAX_LAT node p = Inr p'"
    and once: "distinct (renderedNodes p)"
    and fresh: "node \<notin> set (renderedNodes p)"
    and order: "renderedNodes p = earlier @ ni # later"
    and reach: "addToRenderLoop POLE MAX_LAT node (rev later)
                  (updNode node (\<lambda>n. n\<lparr>state := Some RENDERING\<rparr>) p) = Inr p1"
    and ap: "segment (heap p node) = Some ap" and bp: "segment (heap p ni) = Some bp"
    and cs: "getCommonSide POLE MAX_LAT ap bp = Some cs"
    and runs: "\<not> (hasNeighbor (heap p1 node) cs \<and> hasNeighbor (heap p1 ni) (OPSIDE cs))"
    and sizes: "powerOfTwo (gridSize ap)" "powerOfTwo (gridSize bp)"
    and zooms: "0 \<le> tileZoom ap" "tileZoom ap \<le> 255" "0 \<le> tileZoom bp" "tileZoom bp \<le> 255"
  shows "let ld = real (gridSize ap) / (real (gridSize bp) * 2 powi (tileZoom bp - tileZoom ap))
     in (ld > 1 \<longrightarrow>
           sideSizeAt p' ni (OPSIDE cs) = Some (int (gridSize bp)) \<and>
           (unopposed POLE MAX_LAT p ap cs earlier \<longrightarrow>
              sideSizeAt p' node cs = Some \<lceil>real (gridSize ap) / ld\<rceil>)) \<and>
        (ld < 1 \<longrightarrow>
           sideSizeAt p' ni (OPSIDE cs) = Some \<lceil>real (gridSize bp) * ld\<rceil> \<and>
           (unopposed POLE MAX_LAT p ap cs earlier \<longrightarrow>
              sideSizeAt p' node cs = Some (int (gridSize ap)))) \<and>
        (ld = 1 \<longrightarrow>
           sideSizeAt p' ni (OPSIDE cs) = Some (int (gridSize bp)) \<and>
           (unopposed POLE MAX_LAT p ap cs earlier \<longrightarrow>
              sideSizeAt p' node cs = Some (int (gridSize ap))))"
proof -
  from sizes(2) have pos: "gridSize bp > 0" by (auto simp add: powerOfTwo_def)
  note t = addToRender_through [OF run once fresh order reach ap bp cs runs]
  note v = negotiate_values [OF pos, of ap]
  from t show ?thesis
    unfolding v Let_def by (auto split: if_splits)
qed

theorem addToRender_seam_sizes_counterexample:
  "renderedNodes twoSeamPlanet = [1, 2] \<and>
   segment (heap twoSeamPlanet 0) = Some (gridSegment 32 EPSG3857 4 (box 40 0 60 20)) \<and>
   segment (heap twoSeamPlanet 2) = Some (gridSegment 8 EPSG3857 5 (box 30 10 40 20)) \<and>
   getCommonSide 180 85 (gridSegment 32 EPSG3857 4 (box 40 0 60 20))
     (gridSegment 8 EPSG3857 5 (box 30 10 40 20)) = Some W \<and>
   \<not> hasNeighbor (heap twoSeamPlanet 2) (OPSIDE W) \<and>
   (32 :: real) / (8 * 2 powi (5 - 4)) = 2 \<and> \<lceil>(32 :: real) / 2\<rceil> = 16 \<and>
   (case addToRender 180 85 0 twoSeamPlanet of
      Inr p' \<Rightarrow> sideSizeAt p' 0 W = Some 32
    | Inl e \<Rightarrow> False)"
proof -
  from two_run obtain p' where "addToRender 180 85 0 twoSeamPlanet = Inr p'"
    "sideSizeAt p' 0 W = Some 32"
    by blast
  then show ?thesis
    by (simp add: twoSeamPlanet_facts two_common_side del: One_nat_def)
qed

theorem addToRender_seam_sizes_witness:
  "(\<exists>p'. addToRender 180 85 0 seamPlanet = Inr p' \<and>
      sideSizeAt p' 0 W = Some 8 \<and> sideSizeAt p' 1 E = Some 32) \<and>
   (\<exists>p'. addToRender 180 85 0 twoSeamPlanet = Inr p' \<and> sideSizeAt p' 2 E = Some 8) \<and>
   (\<exists>p'. addToRender 180 85 0 twoSeamPlanet = Inr p' \<and>
      sideSizeAt p' 1 E = Some 16 \<and> sideSizeAt p' 0 W = Some 32)"
proof -
  have p32: "powerOfTwo 32" by (auto simp add: powerOfTwo_def intro: exI [of _ 5])
  have p8: "powerOfTwo 8" by (auto simp add: powerOfTwo_def intro: exI [of _ 3])
  have first: "\<exists>p'. addToRender 180 85 0 seamPlanet = Inr p' \<and>
      sideSizeAt p' 0 W = Some 8 \<and> sideSizeAt p' 1 E = Some 32"
  proof -
    from seam_run obtain p' where run: "addToRender 180 85 0 seamPlanet = Inr p'" by blast
    have r: "renderedNodes seamPlanet = [] @ 1 # []" by (simp add: seamPlanet_def)
    have d: "distinct (renderedNodes seamPlanet)" "0 \<notin> set (renderedNodes seamPlanet)"
      by (simp_all add: seamPlanet_def)
    have l: "addToRenderLoop 180 85 0 (rev [])
               (updNode 0 (\<lambda>n. n\<lparr>state := Some RENDERING\<rparr>) seamPlanet) =
             Inr (updNode 0 (\<lambda>n. n\<lparr>state := Some RENDERING\<rparr>) seamPlanet)"
      by simp
    have g: "\<not> (hasNeighbor (heap (updNode 0 (\<lambda>n. n\<lparr>state := Some RENDERING\<rparr>) seamPlanet) 0) W \<and>
               hasNeighbor (heap (updNode 0 (\<lambda>n. n\<lparr>state := Some RENDERING\<rparr>) seamPlanet) 1)
                 (OPSIDE W))"
      by (simp add: heap_updNode seamPlanet_facts del: One_nat_def)
    have v: "gridSize (gridSegment 32 EPSG3857 5 (box 40 0 50 10)) = 32"
      "gridSize (gridSegment 32 EPSG3857 3 (box 0 0 40 40)) = 32"
      "tileZoom (gridSegment 32 EPSG3857 5 (box 40 0 50 10)) = 5"
      "tileZoom (gridSegment 32 EPSG3857 3 (box 0 0 40 40)) = 3"
      by (simp_all add: gridSegment_def plainSegment_def)
    have u: "unopposed 180 85 seamPlanet (gridSegment 32 EPSG3857 5 (box 40 0 50 10)) W []"
      by (simp add: unopposed_def)
    have ld: "(32 :: real) / (32 * 2 powi (3 - 5)) = 4"
      by (simp add: power_int_def power2_eq_square)
    from addToRender_seam_sizes [OF run d r l seamPlanet_facts(1,2) seam_common_side g]
    have "sideSizeAt p' 1 (OPSIDE W) = Some 32 \<and> sideSizeAt p' 0 W = Some 8"
      using u by (simp add: v p32 Let_def ld)
    with run show ?thesis by simp
  qed
  have second: "\<exists>p'. addToRender 180 85 0 twoSeamPlanet = Inr p' \<and> sideSizeAt p' 2 E = Some 8"
  proof -
    from two_run obtain p' where run: "addToRender 180 85 0 twoSeamPlanet = Inr p'" by blast
    have r: "renderedNodes twoSeamPlanet = [1] @ 2 # []"
      by (simp add: twoSeamPlanet_facts)
    have d: "distinct (renderedNodes twoSeamPlanet)" "0 \<notin> set (renderedNodes twoSeamPlanet)"
      by (simp_all add: twoSeamPlanet_facts)
    have l: "addToRenderLoop 180 85 0 (rev [])
               (updNode 0 (\<lambda>n. n\<lparr>state := Some RENDERING\<rparr>) twoSeamPlanet) =
             Inr (updNode 0 (\<lambda>n. n\<lparr>state := Some RENDERING\<rparr>) twoSeamPlanet)"
      by simp
    have g: "\<not> (hasNeighbor (heap (updNode 0 (\<lambda>n. n\<lparr>state := Some RENDERING\<rparr>) twoSeamPlanet) 0) W \<and>
               hasNeighbor (heap (updNode 0 (\<lambda>n. n\<lparr>state := Some RENDERING\<rparr>) twoSeamPlanet) 2)
                 (OPSIDE W))"
      by (simp add: heap_updNode twoSeamPlanet_facts del: One_nat_def)
    have v: "gridSize (gridSegment 32 EPSG3857 4 (box 40 0 60 20)) = 32"
      "gridSize (gridSegment 8 EPSG3857 5 (box 30 10 40 20)) = 8"
      "tileZoom (gridSegment 32 EPSG3857 4 (box 40 0 60 20)) = 4"
      "tileZoom (gridSegment 8 EPSG3857 5 (box 30 10 40 20)) = 5"
      by (simp_all add: gridSegment_def plainSegment_def)
    have ld: "(32 :: real) / (8 * 2 powi (5 - 4)) = 2"
      by (simp add: power_int_def)
    from addToRender_seam_sizes [OF run d r l twoSeamPlanet_facts(1,3) two_common_side(1) g]
    have "sideSizeAt p' 2 (OPSIDE W) = Some 8"
      by (simp add: v p32 p8 Let_def ld)
    with run show ?thesis by simp
  qed
  have third: "\<exists>p'. addToRender 180 85 0 twoSeamPlanet = Inr p' \<and>
      sideSizeAt p' 1 E = Some 16 \<and> sideSizeAt p' 0 W = Some 32"
  proof -
    from two_run obtain p' where run: "addToRender 180 85 0 twoSeamPlanet = Inr p'" by blast
    define p0 where "p0 = updNode 0 (\<lambda>n. n\<lparr>state := Some RENDERING\<rparr>) twoSeamPlanet"
    have r: "renderedNodes twoSeamPlanet = [] @ 1 # [2]"
      by (simp add: twoSeamPlanet_facts)
    have d: "distinct (renderedNodes twoSeamPlanet)" "0 \<notin> set (renderedNodes twoSeamPlanet)"
      by (simp_all add: twoSeamPlanet_facts)
    from run obtain pl where "addToRenderLoop 180 85 0 (rev [2] @ [1]) p0 = Inr pl"
      by (auto simp add: addToRender_def Let_def p0_def renderedNodes_updNode twoSeamPlanet_facts
          split: sum.splits simp del: One_nat_def)
    then obtain p1 where l: "addToRenderLoop 180 85 0 (rev [2]) p0 = Inr p1"
      unfolding addToRenderLoop_append by (auto split: sum.splits)
    have n: "(0::nat) \<notin> set (rev [2])" by simp
    from addToRenderLoop_keeps [OF l n]
    have "hasNeighbor (heap p1 1) (OPSIDE W) = hasNeighbor (heap p0 1) (OPSIDE W)"
      by (simp del: One_nat_def)
    then have g: "\<not> (hasNeighbor (heap p1 0) W \<and> hasNeighbor (heap p1 1) (OPSIDE W))"
      by (simp add: p0_def heap_updNode twoSeamPlanet_facts del: One_nat_def)
    have v: "gridSize (gridSegment 32 EPSG3857 4 (box 40 0 60 20)) = 32"
      "gridSize (gridSegment 32 EPSG3857 5 (box 30 0 40 10)) = 32"
      "tileZoom (gridSegment 32 EPSG3857 4 (box 40 0 60 20)) = 4"
      "tileZoom (gridSegment 32 EPSG3857 5 (box 30 0 40 10)) = 5"
      by (simp_all add: gridSegment_def plainSegment_def)
    have u: "unopposed 180 85 twoSeamPlanet (gridSegment 32 EPSG3857 4 (box 40 0 60 20)) W []"
      by (simp add: unopposed_def)
    have ld: "(32 :: real) / (32 * 2 powi (5 - 4)) = 1 / 2"
      by (simp add: power_int_def)
    from addToRender_seam_sizes [OF run d r l [unfolded p0_def] twoSeamPlanet_facts(1,2)
        two_common_side(2) g]
    have "sideSizeAt p' 1 (OPSIDE W) = Some 16 \<and> sideSizeAt p' 0 W = Some 32"
      using u by (simp add: v p32 Let_def ld)
    with run show ?thesis by simp
  qed
  from first second third show ?thesis by blast
qed

text \<open>Claim C5, as amended. The negotiation for a common side is skipped only when both
  \<open>hasNeighbor\<close> flags are already set, and then no side size changes; when at least
  one flag is not set, both flags are set and both side sizes are assigned. The
  counterexample to the claim as stated: the flag of the registering node is set, the
  flag of the registered node is not, and the side size of the registering node changes
  from 1 to 8.\<close>

theorem addToRender_negotiation_guard:
  assumes "node \<noteq> ni"
    and "segment (heap p node) = Some ap" and "segment (heap p ni) = Some bp"
    and "neighbors (heap p node) = Some na" and "neighbors (heap p ni) = Some nb"
    and "sideSize (heap p node) = Some sa" and "sideSize (heap p ni) = Some sb"
    and "getCommonSide POLE MAX_LAT ap bp = Some cs"
  shows "\<exists>p'. encounter POLE MAX_LAT node ni p = Inr p' \<and>
     (if hasNeighbor (heap p node) cs \<and> hasNeighbor (heap p ni) (OPSIDE cs)
      then \<forall>r s. sideSizeAt p' r s = sideSizeAt p r s
      else sideSizeAt p' node cs = Some (fst (negotiate ap bp)) \<and>
           sideSizeAt p' ni (OPSIDE cs) = Some (snd (negotiate ap bp)) \<and>
           hasNeighbor (heap p' node) cs \<and> hasNeighbor (heap p' ni) (OPSIDE cs))"
proof (cases "hasNeighbor (heap p node) cs \<and> hasNeighbor (heap p ni) (OPSIDE cs)")
  case True
  with encounter_skips [OF assms(2,3,4,5,8)] show ?thesis
    by (auto simp add: sideSizeAt_def)
next
  case False
  from encounter_negotiates [OF assms False] assms(1) False show ?thesis
    by (auto simp add: sideSizeAt_def)
qed

lemma flaggedPlanet_facts:
  "segment (heap flaggedPlanet 0) = Some (gridSegment 32 EPSG3857 5 (box 40 0 50 10))"
  "segment (heap flaggedPlanet 1) = Some (gridSegment 32 EPSG3857 3 (box 0 0 40 40))"
  "neighbors (heap flaggedPlanet 0) = Some (\<lambda>_. None)"
  "neighbors (heap flaggedPlanet 1) = Some (\<lambda>_. None)"
  "sideSize (heap flaggedPlanet 0) = Some (\<lambda>_. 1)"
  "sideSize (heap flaggedPlanet 1) = Some (\<lambda>_. 1)"
  "hasNeighbor (heap flaggedPlanet 0) = (\<lambda>_. False)(W := True)"
  "hasNeighbor (heap flaggedPlanet 1) = (\<lambda>_. False)"
  by (simp_all add: flaggedPlanet_def setHasNeighbor_def heap_updNode seamPlanet_facts
      del: One_nat_def)

lemma seam_negotiate:
  "negotiate (gridSegment 32 EPSG3857 5 (box 40 0 50 10))
     (gridSegment 32 EPSG3857 3 (box 0 0 40 40)) = (8, 32)"
  by (simp add: negotiate_def seam_ratio_4 Let_def) (simp add: gridSegment_def plainSegment_def)

theorem addToRender_negotiation_guard_counterexample:
  "hasNeighbor (heap flaggedPlanet 0) W \<and>
   sideSizeAt flaggedPlanet 0 W = Some 1 \<and>
   (case encounter 180 85 0 1 flaggedPlanet of
      Inr p' \<Rightarrow> sideSizeAt p' 0 W = Some 8
    | Inl e \<Rightarrow> False)"
proof -
  have f: "\<not> (hasNeighbor (heap flaggedPlanet 0) W \<and> hasNeighbor (heap flaggedPlanet 1) (OPSIDE W))"
    by (simp add: flaggedPlanet_facts del: One_nat_def)
  have ne: "(0::nat) \<noteq> 1" by simp
  note e = encounter_negotiates [OF ne flaggedPlanet_facts(1,2,3,4,5,6) seam_common_side f]
  show ?thesis
    by (simp add: e sideSizeAt_def flaggedPlanet_facts seam_negotiate del: One_nat_def)
qed

theorem addToRender_negotiation_guard_witness:
  "(\<exists>p'. encounter 180 85 0 1 flaggedPlanet = Inr p' \<and>
      sideSizeAt p' 0 W = Some 8 \<and> sideSizeAt p' 1 E = Some 32 \<and>
      hasNeighbor (heap p' 0) W \<and> hasNeighbor (heap p' 1) E) \<and>
   (\<exists>p'. encounter 180 85 0 1 (setHasNeighbor 1 E flaggedPlanet) = Inr p' \<and>
      sideSizeAt p' 0 W = Some 1 \<and> sideSizeAt p' 1 E = Some 1)"
proof -
  have ne: "(0::nat) \<noteq> 1" by simp
  have a: "\<exists>p'. encounter 180 85 0 1 flaggedPlanet = Inr p' \<and>
      sideSizeAt p' 0 W = Some 8 \<and> sideSizeAt p' 1 E = Some 32 \<and>
      hasNeighbor (heap p' 0) W \<and> hasNeighbor (heap p' 1) E"
    using addToRender_negotiation_guard [OF ne flaggedPlanet_facts(1,2,3,4,5,6) seam_common_side]
    by (simp add: flaggedPlanet_facts seam_negotiate del: One_nat_def)
  have facts2:
    "segment (heap (setHasNeighbor 1 E flaggedPlanet) 0) = Some (gridSegment 32 EPSG3857 5 (box 40 0 50 10))"
    "segment (heap (setHasNeighbor 1 E flaggedPlanet) 1) = Some (gridSegment 32 EPSG3857 3 (box 0 0 40 40))"
    "neighbors (heap (setHasNeighbor 1 E flaggedPlanet) 0) = Some (\<lambda>_. None)"
    "neighbors (heap (setHasNeighbor 1 E flaggedPlanet) 1) = Some (\<lambda>_. None)"
    "sideSize (heap (setHasNeighbor 1 E flaggedPlanet) 0) = Some (\<lambda>_. 1)"
    "sideSize (heap (setHasNeighbor 1 E flaggedPlanet) 1) = Some (\<lambda>_. 1)"
    and h2: "hasNeighbor (heap (setHasNeighbor 1 E flaggedPlanet) 0) W"
      "hasNeighbor (heap (setHasNeighbor 1 E flaggedPlanet) 1) E"
    by (simp_all add: setHasNeighbor_def heap_updNode flaggedPlanet_facts del: One_nat_def)
  have s2: "sideSizeAt (setHasNeighbor 1 E flaggedPlanet) 0 W = Some 1"
    "sideSizeAt (setHasNeighbor 1 E flaggedPlanet) 1 E = Some 1"
    by (simp_all add: sideSizeAt_def facts2 del: One_nat_def)
  have b: "\<exists>p'. encounter 180 85 0 1 (setHasNeighbor 1 E flaggedPlanet) = Inr p' \<and>
      sideSizeAt p' 0 W = Some 1 \<and> sideSizeAt p' 1 E = Some 1"
    using addToRender_negotiation_guard [OF ne facts2 seam_common_side]
    by (auto simp add: h2 s2 simp del: One_nat_def)
  from a b show ?thesis by blast
qed

subsection \<open>renderTree\<close>

text \<open>Claim C6, as amended. On a node whose parent has the camera inside, the camera is
  tested against the segment's extent in mercator coordinates when the segment's
  projection is EPSG3857 and \<open>|lat| \<le> MAX_LAT\<close>, and in equirectangular coordinates when
  the projection is EPSG4326; for a mercator segment with \<open>|lat| > MAX_LAT\<close> no test is
  made and \<open>cameraInside\<close> stays false. The counterexample to the claim as stated: a
  mercator segment whose extent contains the camera's equirectangular position, with
  the camera north of \<open>MAX_LAT\<close>, ends with \<open>cameraInside\<close> false.\<close>

theorem renderTree_cameraInside_test:
  assumes "parentNode (heap p this) = Some par" and "par \<noteq> this"
    and "cameraInside (heap p par)"
    and "segment (heap p this) = Some seg"
  shows "\<exists>cam' p'. renderTreeCameraInside MAX_LAT cam this p = Inr (cam', p') \<and>
     cameraInside (heap p' this) =
       (if \<bar>lat (lonLat cam)\<bar> \<le> MAX_LAT \<and> projection seg = EPSG3857
        then isInside (extent seg) (lonLatMerc cam)
        else if projection seg = EPSG4326 then isInside (extent seg) (lonLat cam)
        else False)"
  using assms
  by (auto simp add: renderTreeCameraInside_def Let_def heap_updNode split: prod.splits)

lemma polarPlanet_facts:
  "parentNode (heap polarPlanet 1) = Some 0"
  "cameraInside (heap polarPlanet 0)"
  "segment (heap polarPlanet 1) = Some (gridSegment 32 EPSG3857 1 (box (-200) (-200) 200 200))"
  by (simp_all add: polarPlanet_def heap_updNode newNode_def emptyPlanet_def Let_def)

theorem renderTree_cameraInside_test_witness:
  "\<exists>cam' p'. renderTreeCameraInside 85 polarCamera 1 polarPlanet = Inr (cam', p') \<and>
     \<not> cameraInside (heap p' 1)"
proof -
  have ne: "(0::nat) \<noteq> 1" by simp
  from renderTree_cameraInside_test [OF polarPlanet_facts(1) ne polarPlanet_facts(2,3), of 85 polarCamera]
  show ?thesis
    by (simp add: polarCamera_def gridSegment_def plainSegment_def del: One_nat_def)
qed

theorem renderTree_cameraInside_test_counterexample:
  "projection (gridSegment 32 EPSG3857 1 (box (-200) (-200) 200 200)) = EPSG3857 \<and>
   \<bar>lat (lonLat polarCamera)\<bar> > 85 \<and>
   isInside (extent (gridSegment 32 EPSG3857 1 (box (-200) (-200) 200 200))) (lonLat polarCamera) \<and>
   (case renderTreeCameraInside 85 polarCamera 1 polarPlanet of
      Inr (cam', p') \<Rightarrow> \<not> cameraInside (heap p' 1)
    | Inl e \<Rightarrow> False)"
  by (simp add: renderTreeCameraInside_def polarPlanet_facts Let_def heap_updNode
      polarCamera_def gridSegment_def plainSegment_def isInside_def box_def del: One_nat_def)

subsection \<open>whileNormalMapCreating\<close>

lemma walkUp_total:
  assumes "\<forall>n\<in>set (this # ancestors). segment n \<noteq> None"
  shows "\<exists>pn upper. walkUp c this ancestors = Inr (pn, upper) \<and>
           pn \<in> set (this # ancestors) \<and> length upper \<le> length ancestors \<and>
           ((\<forall>n\<in>set (this # ancestors). \<forall>s. segment n = Some s \<longrightarrow> c s) \<longrightarrow>
              pn = last (this # ancestors))"
  using assms
proof (induction ancestors arbitrary: this)
  case Nil
  then show ?case by simp
next
  case (Cons parent above)
  from Cons.prems obtain s where s: "segment this = Some s" by auto
  from Cons.prems have "\<forall>n\<in>set (parent # above). segment n \<noteq> None" by simp
  from Cons.IH [OF this] obtain pn upper where
    w: "walkUp c parent above = Inr (pn, upper)" "pn \<in> set (parent # above)"
       "length upper \<le> length above"
       "(\<forall>n\<in>set (parent # above). \<forall>s. segment n = Some s \<longrightarrow> c s) \<longrightarrow> pn = last (parent # above)"
    by blast
  show ?case
  proof (cases "c s")
    case True
    with s w show ?thesis by auto
  next
    case False
    with s show ?thesis by auto
  qed
qed

lemma segment_setSegment: "segment (setSegment f n) = map_option f (segment n)"
  by (simp add: setSegment_def)

lemma walkUp_stop:
  "walkUp c this ancestors = Inr (pn, upper) \<Longrightarrow>
   \<exists>pre. this # ancestors = pre @ pn # upper \<and>
     (\<forall>n\<in>set pre. \<exists>s. segment n = Some s \<and> c s) \<and>
     (upper = [] \<or> (\<exists>s. segment pn = Some s \<and> \<not> c s))"
proof (induction ancestors arbitrary: this)
  case Nil
  then show ?case by simp
next
  case (Cons parent above)
  from Cons.prems obtain s where s: "segment this = Some s"
    by (auto split: option.splits)
  show ?case
  proof (cases "c s")
    case True
    with Cons.prems s have "walkUp c parent above = Inr (pn, upper)" by simp
    from Cons.IH [OF this] obtain pre where
      "parent # above = pre @ pn # upper"
      "\<forall>n\<in>set pre. \<exists>s. segment n = Some s \<and> c s"
      "upper = [] \<or> (\<exists>s. segment pn = Some s \<and> \<not> c s)"
      by blast
    with s True show ?thesis
      by (intro exI [of _ "this # pre"]) simp
  next
    case False
    with Cons.prems s have "pn = this" "upper = parent # above" by simp_all
    with s False show ?thesis
      by (intro exI [of _ "[]"]) simp
  qed
qed

lemma sint_small:
  "- (2 ^ 31) \<le> x \<Longrightarrow> x < 2 ^ 31 \<Longrightarrow> sint (word_of_int x :: 32 word) = x"
  by (simp add: signed_of_int signed_take_bit_int_eq_self)

lemma shift_pow:
  assumes "1 \<le> d" "d \<le> 30"
  shows "sint (push_bit (nat ((d - 1) mod 32)) (2 :: 32 word)) = 2 ^ nat d"
proof -
  define k where "k = nat (d - 1)"
  from assms have m: "nat ((d - 1) mod 32) = k" and d: "nat d = Suc k" and k: "k \<le> 29"
    by (simp_all add: k_def)
  have p: "push_bit k (2 :: 32 word) = word_of_int (2 ^ Suc k)"
    by (simp add: push_bit_eq_mult)
  have "(2::int) ^ Suc k \<le> 2 ^ 30" using k by (intro power_increasing) simp_all
  then have u: "(2::int) ^ Suc k < 2 ^ 31" by simp
  have l: "- (2 ^ 31) \<le> (2::int) ^ Suc k"
    by (rule order_trans [of _ 0]) simp_all
  show ?thesis
    unfolding m d p by (rule sint_small [OF l u])
qed

text \<open>Claim C10. \<open>whileNormalMapCreating\<close> takes the segment's normal-map texture and
  bias from the node \<open>pn\<close> at which the walk up the parents stops, whether or not the
  normal map of \<open>pn\<close> is ready. The walk stops at the first node, from \<open>this\<close> upwards,
  whose normal map is ready, and at the root when there is none: every node below \<open>pn\<close>
  has no normal map, and \<open>pn\<close> has one or is the root. The bias is
  \<open>(tileX - pn.tileX * dZ2, tileY - pn.tileY * dZ2, 1 / dZ2)\<close> with
  \<open>dZ2 = 2 << (tileZoom - pn.tileZoom - 1)\<close>, a shift of 32-bit integers: for a
  difference of 1 to 30 zoom levels \<open>dZ2\<close> is 2 to the power of the difference, and for
  \<open>dZ2 = 0\<close> the third entry is \<open>Infinity\<close>. When no node on the way has
  \<open>normalMapReady\<close>, \<open>pn\<close> is the root, its normal map is not ready, and the texture
  handle and the bias are assigned all the same.\<close>

theorem whileNormalMapCreating_unguarded:
  assumes nonnull: "\<forall>n\<in>set (this # ancestors). segment n \<noteq> None"
    and seg: "segment this = Some seg"
  shows "\<exists>pre pn post pseg this' calls seg'.
     this # ancestors = pre @ pn # post \<and>
     (\<forall>n\<in>set pre. \<forall>s. segment n = Some s \<longrightarrow> \<not> normalMapReady s) \<and>
     segment pn = Some pseg \<and>
     (post = [] \<or> normalMapReady pseg) \<and>
     whileNormalMapCreating terr this ancestors = Inr (this', calls) \<and>
     segment this' = Some seg' \<and>
     normalMapTexture seg' = normalMapTexture pseg \<and>
     normalMapTextureBias seg' =
       (let dZ2 = sint (push_bit (nat ((tileZoom seg - tileZoom pseg - 1) mod 32)) (2 :: 32 word))
        in (Num (real_of_int (tileX seg - tileX pseg * dZ2)),
            Num (real_of_int (tileY seg - tileY pseg * dZ2)),
            if dZ2 = 0 then Infinity else Num (1 / real_of_int dZ2))) \<and>
     (1 \<le> tileZoom seg - tileZoom pseg \<and> tileZoom seg - tileZoom pseg \<le> 30 \<longrightarrow>
        normalMapTextureBias seg' =
          (Num (real_of_int (tileX seg - tileX pseg * 2 ^ nat (tileZoom seg - tileZoom pseg))),
           Num (real_of_int (tileY seg - tileY pseg * 2 ^ nat (tileZoom seg - tileZoom pseg))),
           Num (1 / 2 ^ nat (tileZoom seg - tileZoom pseg)))) \<and>
     ((\<forall>n\<in>set (this # ancestors). \<forall>s. segment n = Some s \<longrightarrow> \<not> normalMapReady s) \<longrightarrow>
        pn = last (this # ancestors) \<and> \<not> normalMapReady pseg)"
proof -
  from walkUp_total [OF nonnull, of "\<lambda>s. \<not> normalMapReady s"] obtain pn post where
    w: "walkUp (\<lambda>s. \<not> normalMapReady s) this ancestors = Inr (pn, post)"
       "pn \<in> set (this # ancestors)"
    by blast
  from w(2) nonnull obtain pseg where pseg: "segment pn = Some pseg" by auto
  from walkUp_stop [OF w(1)] obtain pre where
    sp: "this # ancestors = pre @ pn # post"
    and below0: "\<forall>n\<in>set pre. \<exists>s. segment n = Some s \<and> \<not> normalMapReady s"
    and stop0: "post = [] \<or> (\<exists>s. segment pn = Some s \<and> \<not> \<not> normalMapReady s)"
    by blast
  from below0 have below:
    "\<forall>n\<in>set pre. \<forall>s. segment n = Some s \<longrightarrow> \<not> normalMapReady s"
    by fastforce
  from stop0 pseg have stop: "post = [] \<or> normalMapReady pseg" by auto
  define dZ2 where "dZ2 = shl32 2 (tileZoom seg - tileZoom pseg - 1)"
  define bias where "bias =
       (Num (real_of_int (tileX seg - tileX pseg * dZ2)),
        Num (real_of_int (tileY seg - tileY pseg * dZ2)),
        recip dZ2)"
  define this1 where "this1 = setSegment (\<lambda>s. s\<lparr>normalMapTexture := normalMapTexture pseg,
       normalMapTextureBias := bias\<rparr>) this"
  have nonnull1: "\<forall>n\<in>set (this1 # ancestors). segment n \<noteq> None"
    using nonnull seg by (simp add: this1_def segment_setSegment)
  from walkUp_total [OF nonnull1, of "\<lambda>s. tileZoom s \<noteq> maxZoom terr"] obtain pn2 upper2 where
    w2: "walkUp (\<lambda>s. tileZoom s \<noteq> maxZoom terr) this1 ancestors = Inr (pn2, upper2)"
        "pn2 \<in> set (this1 # ancestors)"
    by blast
  from w2(2) nonnull1 obtain pns where pns: "segment pn2 = Some pns" by auto
  have res: "\<exists>calls this'. whileNormalMapCreating terr this ancestors = Inr (this', calls) \<and>
      (this' = this1 \<or> this' = setSegment (\<lambda>s. s\<lparr>parentNormalMapReady := True\<rparr>) this1)"
    using seg w(1) pseg w2(1) pns
    unfolding this1_def bias_def dZ2_def
    by (simp add: whileNormalMapCreating_def Let_def)
  then obtain calls this' where
    r: "whileNormalMapCreating terr this ancestors = Inr (this', calls)"
    and t: "this' = this1 \<or> this' = setSegment (\<lambda>s. s\<lparr>parentNormalMapReady := True\<rparr>) this1"
    by blast
  from t seg obtain seg' where seg': "segment this' = Some seg'"
    and tex: "normalMapTexture seg' = normalMapTexture pseg"
    and b: "normalMapTextureBias seg' = bias"
    by (auto simp add: this1_def segment_setSegment)
  have general: "bias =
       (let dZ2 = sint (push_bit (nat ((tileZoom seg - tileZoom pseg - 1) mod 32)) (2 :: 32 word))
        in (Num (real_of_int (tileX seg - tileX pseg * dZ2)),
            Num (real_of_int (tileY seg - tileY pseg * dZ2)),
            if dZ2 = 0 then Infinity else Num (1 / real_of_int dZ2)))"
    by (simp add: bias_def dZ2_def shl32_def recip_def Let_def)
  have usual: "bias =
          (Num (real_of_int (tileX seg - tileX pseg * 2 ^ nat (tileZoom seg - tileZoom pseg))),
           Num (real_of_int (tileY seg - tileY pseg * 2 ^ nat (tileZoom seg - tileZoom pseg))),
           Num (1 / 2 ^ nat (tileZoom seg - tileZoom pseg)))"
    if "1 \<le> tileZoom seg - tileZoom pseg \<and> tileZoom seg - tileZoom pseg \<le> 30"
  proof -
    from that have "dZ2 = 2 ^ nat (tileZoom seg - tileZoom pseg)"
      unfolding dZ2_def shl32_def using shift_pow [of "tileZoom seg - tileZoom pseg"] by simp
    then show ?thesis by (simp add: bias_def recip_def)
  qed
  have root: "pn = last (this # ancestors) \<and> \<not> normalMapReady pseg"
    if none: "\<forall>n\<in>set (this # ancestors). \<forall>s. segment n = Some s \<longrightarrow> \<not> normalMapReady s"
  proof -
    from w(2) pseg none have nr: "\<not> normalMapReady pseg" by blast
    with stop have "post = []" by simp
    with sp have "pn = last (this # ancestors)" by simp
    with nr show ?thesis by simp
  qed
  note g = general [folded b]
  from usual have u: "1 \<le> tileZoom seg - tileZoom pseg \<and> tileZoom seg - tileZoom pseg \<le> 30 \<longrightarrow>
        normalMapTextureBias seg' =
          (Num (real_of_int (tileX seg - tileX pseg * 2 ^ nat (tileZoom seg - tileZoom pseg))),
           Num (real_of_int (tileY seg - tileY pseg * 2 ^ nat (tileZoom seg - tileZoom pseg))),
           Num (1 / 2 ^ nat (tileZoom seg - tileZoom pseg)))"
    unfolding b by (rule impI)
  from root have ro:
    "(\<forall>n\<in>set (this # ancestors). \<forall>s. segment n = Some s \<longrightarrow> \<not> normalMapReady s) \<longrightarrow>
        pn = last (this # ancestors) \<and> \<not> normalMapReady pseg"
    by (rule impI)
  show ?thesis
    apply (rule exI [of _ pre], rule exI [of _ pn], rule exI [of _ post], rule exI [of _ pseg])
    apply (rule exI [of _ this'], rule exI [of _ calls], rule exI [of _ seg'])
    apply (intro conjI)
             apply (rule sp)
            apply (rule below)
           apply (rule pseg)
          apply (rule stop)
         apply (rule r)
        apply (rule seg')
       apply (rule tex)
      apply (rule g)
     apply (rule u)
    apply (rule ro)
    done
qed

theorem whileNormalMapCreating_unguarded_witness:
  "\<exists>this' calls seg'.
     whileNormalMapCreating someTerrain deepNode [midNode, topNode] = Inr (this', calls) \<and>
     segment this' = Some seg' \<and>
     normalMapTexture seg' = Some 7 \<and>
     normalMapTextureBias seg' = (Num 3, Num 1, Num (1 / 4)) \<and>
     \<not> normalMapReady (tileSegment 0 0 0\<lparr>normalMapTexture := Some 7\<rparr>)"
proof -
  have nn: "\<forall>n\<in>set (deepNode # [midNode, topNode]). segment n \<noteq> None"
    by (simp add: deepNode_def midNode_def topNode_def segNode_def)
  have s: "segment deepNode = Some (tileSegment 2 3 1)"
    by (simp add: deepNode_def segNode_def)
  have t: "segment topNode = Some (tileSegment 0 0 0\<lparr>normalMapTexture := Some 7\<rparr>)"
    by (simp add: topNode_def segNode_def)
  have none: "\<forall>n\<in>set (deepNode # [midNode, topNode]). \<forall>s. segment n = Some s \<longrightarrow>
      \<not> normalMapReady s"
    by (simp add: deepNode_def midNode_def topNode_def segNode_def tileSegment_def
        plainSegment_def)
  have v: "tileX (tileSegment 2 3 1) = 3" "tileY (tileSegment 2 3 1) = 1"
    "tileZoom (tileSegment 2 3 1) = 2"
    "tileX (tileSegment 0 0 0\<lparr>normalMapTexture := Some 7\<rparr>) = 0"
    "tileY (tileSegment 0 0 0\<lparr>normalMapTexture := Some 7\<rparr>) = 0"
    "tileZoom (tileSegment 0 0 0\<lparr>normalMapTexture := Some 7\<rparr>) = 0"
    "normalMapTexture (tileSegment 0 0 0\<lparr>normalMapTexture := Some 7\<rparr>) = Some 7"
    "\<not> normalMapReady (tileSegment 0 0 0\<lparr>normalMapTexture := Some 7\<rparr>)"
    by (simp_all add: tileSegment_def plainSegment_def)
  from whileNormalMapCreating_unguarded [OF nn s, of someTerrain]
  obtain pn pseg this' calls seg' where
    a: "segment pn = Some pseg"
       "whileNormalMapCreating someTerrain deepNode [midNode, topNode] = Inr (this', calls)"
       "segment this' = Some seg'"
       "normalMapTexture seg' = normalMapTexture pseg"
       "1 \<le> tileZoom (tileSegment 2 3 1) - tileZoom pseg \<and>
        tileZoom (tileSegment 2 3 1) - tileZoom pseg \<le> 30 \<longrightarrow>
        normalMapTextureBias seg' =
          (Num (real_of_int (tileX (tileSegment 2 3 1) -
              tileX pseg * 2 ^ nat (tileZoom (tileSegment 2 3 1) - tileZoom pseg))),
           Num (real_of_int (tileY (tileSegment 2 3 1) -
              tileY pseg * 2 ^ nat (tileZoom (tileSegment 2 3 1) - tileZoom pseg))),
           Num (1 / 2 ^ nat (tileZoom (tileSegment 2 3 1) - tileZoom pseg)))"
       "(\<forall>n\<in>set (deepNode # [midNode, topNode]). \<forall>s. segment n = Some s \<longrightarrow>
            \<not> normalMapReady s) \<longrightarrow>
        pn = last (deepNode # [midNode, topNode]) \<and> \<not> normalMapReady pseg"
    by blast
  from a(6) none have "pn = topNode" by simp
  with a(1) t have p: "pseg = tileSegment 0 0 0\<lparr>normalMapTexture := Some 7\<rparr>" by simp
  have "normalMapTexture seg' = Some 7"
    "normalMapTextureBias seg' = (Num 3, Num 1, Num (1 / 4))"
    using a(4,5) by (simp_all add: p v)
  with a(2,3) v(8) show ?thesis by blast
qed

subsection \<open>getMatrixSubArray and whileTerrainLoading\<close>

lemma sub_eval:
  "getMatrixSubArray numbered 2 1 1 1 =
     Inr ([Val 12, Val 13, Val 14, Val 15, Val 16, Val 17,
           Val 21, Val 22, Val 23, Val 24, Val 25, Val 26] @ replicate 15 (Val 0))"
  by (simp add: getMatrixSubArray_def Let_def rowLoop.simps colLoop.simps readCell_def numbered_def
      eval_nat_numeral)

lemma childSE_facts:
  "segment childSE = Some ((tileSegment 1 1 1)\<lparr>ready := True\<rparr>)"
  "appliedTerrainNodeId childSE = - 1"
  "segment terrainRoot = Some ((tileSegment 0 0 0)\<lparr>gridSize := 2, ready := True,
        terrainReady := True, terrainExists := True, terrainVertices := numbered,
        normalMapNormals := numbered\<rparr>)"
  "nodeId terrainRoot = 0"
  by (simp_all add: childSE_def terrainRoot_def segNode_def)

text \<open>Claim C3. The south-east child (tile (1, 1) at zoom 1) of a root whose terrain is a
  2 x 2 grid inherits the sub-grid of size 1 that starts at row 1, column 1. The grid
  size and the four side sizes become 1, and the inherited array starts with the four
  sub-sampled vertices (12 numbers), but it has 27 cells, not 12: \<open>getMatrixSubArray\<close>
  allocates \<open>(i0 + size + 1) * (j0 + size + 1) * 3\<close> cells and leaves the rest zero.\<close>

theorem whileTerrainLoading_padded_subarray:
  "(case whileTerrainLoading someTerrain childSE [terrainRoot] of
      Inr (this', calls, r) \<Rightarrow>
        (case segment this' of
           Some s \<Rightarrow>
             gridSize s = 1 \<and> sideSize this' = Some (\<lambda>_. 1) \<and>
             tempVertices s =
               [Val 12, Val 13, Val 14, Val 15, Val 16, Val 17,
                Val 21, Val 22, Val 23, Val 24, Val 25, Val 26] @ replicate 15 (Val 0) \<and>
             length (tempVertices s) = 27
         | None \<Rightarrow> False)
    | Inl e \<Rightarrow> False)"
proof -
  have w: "walkUp (\<lambda>s. \<not> terrainReady s) childSE [terrainRoot] = Inr (terrainRoot, [])"
    by (simp add: childSE_facts tileSegment_def plainSegment_def)
  have m: "inheritMesh 2 ((tileSegment 0 0 0)\<lparr>gridSize := 2, ready := True,
        terrainReady := True, terrainExists := True, terrainVertices := numbered,
        normalMapNormals := numbered\<rparr>) 2 1 1 =
      Inr (1, [Val 12, Val 13, Val 14, Val 15, Val 16, Val 17,
               Val 21, Val 22, Val 23, Val 24, Val 25, Val 26] @ replicate 15 (Val 0),
           Some ([Val 12, Val 13, Val 14, Val 15, Val 16, Val 17,
               Val 21, Val 22, Val 23, Val 24, Val 25, Val 26] @ replicate 15 (Val 0)))"
    by (simp add: inheritMesh_def Let_def sub_eval)
  have z: "shl32 2 (tileZoom ((tileSegment 1 1 1)\<lparr>ready := True\<rparr>) -
             tileZoom ((tileSegment 0 0 0)\<lparr>gridSize := 2, ready := True,
        terrainReady := True, terrainExists := True, terrainVertices := numbered,
        normalMapNormals := numbered\<rparr>) - 1) = 2"
    by (simp add: shl32_def tileSegment_def plainSegment_def)
  have v: "tileZoom ((tileSegment 1 1 1)\<lparr>ready := True\<rparr>) = 1"
    "tileX ((tileSegment 1 1 1)\<lparr>ready := True\<rparr>) = 1"
    "tileY ((tileSegment 1 1 1)\<lparr>ready := True\<rparr>) = 1"
    "ready ((tileSegment 1 1 1)\<lparr>ready := True\<rparr>)"
    "tileZoom ((tileSegment 0 0 0)\<lparr>gridSize := 2, ready := True,
        terrainReady := True, terrainExists := True, terrainVertices := numbered,
        normalMapNormals := numbered\<rparr>) = 0"
    "tileX ((tileSegment 0 0 0)\<lparr>gridSize := 2, ready := True,
        terrainReady := True, terrainExists := True, terrainVertices := numbered,
        normalMapNormals := numbered\<rparr>) = 0"
    "tileY ((tileSegment 0 0 0)\<lparr>gridSize := 2, ready := True,
        terrainReady := True, terrainExists := True, terrainVertices := numbered,
        normalMapNormals := numbered\<rparr>) = 0"
    by (simp_all add: tileSegment_def plainSegment_def)
  show ?thesis
    unfolding whileTerrainLoading_def Let_def childSE_facts option.case w sum.case prod.case z
    by (simp add: applyInherited_def childSE_facts m v someTerrain_def setSegment_def)
qed

subsection \<open>Neighbour links over a frame\<close>

lemma sharesSide_frame:
  "(\<And>r. segment (heap p' r) = segment (heap p r)) \<Longrightarrow>
   sharesSide POLE MAX_LAT p' x y t = sharesSide POLE MAX_LAT p x y t"
  by (simp add: sharesSide_def split: option.splits)

lemma commonSide_frame:
  "(\<And>r. segment (heap p' r) = segment (heap p r)) \<Longrightarrow>
   commonSide POLE MAX_LAT p' x y = commonSide POLE MAX_LAT p x y"
  by (simp add: commonSide_def split: option.splits)

lemma linkedD:
  "linked POLE MAX_LAT R p \<Longrightarrow> x \<in> R \<Longrightarrow> neighbor p x t = Some y \<Longrightarrow>
   y \<in> R \<and> y \<noteq> x \<and>
   (neighbor p y (OPSIDE t) = Some x \<or>
    (\<exists>c\<in>R. c \<noteq> x \<and> c \<noteq> y \<and> sharesSide POLE MAX_LAT p y c (OPSIDE t)))"
  unfolding linked_def by blast

text \<open>The invariant is kept by an encounter of two different nodes of \<open>R\<close>, by the
  loop of \<open>addToRender\<close>, by the reset of a node that is not registered yet, and so by a
  whole frame.\<close>

lemma encounter_linked:
  assumes enc: "encounter POLE MAX_LAT node ni p = Inr p'"
    and ne: "node \<noteq> ni" and nR: "node \<in> R" and niR: "ni \<in> R"
    and inv: "linked POLE MAX_LAT R p"
  shows "linked POLE MAX_LAT R p'"
proof -
  from encounter_effect [OF enc] obtain ap bp where
    ap: "segment (heap p node) = Some ap" and bp: "segment (heap p ni) = Some bp"
    and segs: "\<And>r. segment (heap p' r) = segment (heap p r)"
    and eff: "case getCommonSide POLE MAX_LAT ap bp of
        None \<Rightarrow> neighbor p' = neighbor p
      | Some cs \<Rightarrow>
          (\<forall>x t. neighbor p' x t =
             (if x = ni \<and> t = OPSIDE cs then Some node
              else if x = node \<and> t = cs then Some ni
              else neighbor p x t))"
    by blast
  note S = sharesSide_frame [of p' p, OF segs]
  show ?thesis
  proof (cases "getCommonSide POLE MAX_LAT ap bp")
    case None
    with eff have "neighbor p' = neighbor p" by simp
    with inv show ?thesis by (simp add: linked_def S)
  next
    case (Some cs)
    with eff have N: "neighbor p' x t =
             (if x = ni \<and> t = OPSIDE cs then Some node
              else if x = node \<and> t = cs then Some ni
              else neighbor p x t)" for x t
      by simp
    have sh1: "sharesSide POLE MAX_LAT p node ni cs"
      and sh2: "sharesSide POLE MAX_LAT p ni node (OPSIDE cs)"
      using ap bp Some by (simp_all add: sharesSide_def)
    show ?thesis
      unfolding linked_def
    proof (intro ballI allI impI)
      fix x t y
      assume xR: "x \<in> R" and l: "neighbor p' x t = Some y"
      consider (a) "x = ni" "t = OPSIDE cs"
        | (b) "\<not> (x = ni \<and> t = OPSIDE cs)" "x = node" "t = cs"
        | (c) "\<not> (x = ni \<and> t = OPSIDE cs)" "\<not> (x = node \<and> t = cs)"
        by blast
      then show "y \<in> R \<and> y \<noteq> x \<and>
         (neighbor p' y (OPSIDE t) = Some x \<or>
          (\<exists>c\<in>R. c \<noteq> x \<and> c \<noteq> y \<and> sharesSide POLE MAX_LAT p' y c (OPSIDE t)))"
      proof cases
        case a
        with l N have "y = node" by simp
        with a ne nR show ?thesis by (simp add: N)
      next
        case b
        with l N ne have "y = ni" by simp
        with b ne niR show ?thesis by (simp add: N)
      next
        case c
        with l N have old: "neighbor p x t = Some y" by simp
        from linkedD [OF inv xR old] have yR: "y \<in> R" and yx: "y \<noteq> x"
          and D: "neighbor p y (OPSIDE t) = Some x \<or>
            (\<exists>c\<in>R. c \<noteq> x \<and> c \<noteq> y \<and> sharesSide POLE MAX_LAT p y c (OPSIDE t))"
          by blast+
        from D have "neighbor p' y (OPSIDE t) = Some x \<or>
          (\<exists>c\<in>R. c \<noteq> x \<and> c \<noteq> y \<and> sharesSide POLE MAX_LAT p y c (OPSIDE t))"
        proof
          assume lb: "neighbor p y (OPSIDE t) = Some x"
          consider (i) "y = ni" "t = cs" | (ii) "\<not> (y = ni \<and> t = cs)" "y = node" "OPSIDE t = cs"
            | (iii) "\<not> (y = ni \<and> t = cs)" "\<not> (y = node \<and> OPSIDE t = cs)"
            by blast
          then show ?thesis
          proof cases
            case i
            with c have "x \<noteq> node" by blast
            with i nR ne sh2 show ?thesis by (intro disjI2 bexI [of _ node]) auto
          next
            case ii
            from ii(3) have "t = OPSIDE cs" by auto
            with c have "x \<noteq> ni" by blast
            with ii niR ne sh1 show ?thesis by (intro disjI2 bexI [of _ ni]) auto
          next
            case iii
            then have "neighbor p' y (OPSIDE t) = neighbor p y (OPSIDE t)"
              using N [of y "OPSIDE t"] by auto
            with lb show ?thesis by simp
          qed
        qed blast
        with yR yx show ?thesis by (simp add: S)
      qed
    qed
  qed
qed

lemma addToRenderLoop_linked:
  assumes "addToRenderLoop POLE MAX_LAT node xs p = Inr p'"
    and "node \<notin> set xs" and "node \<in> R" and "set xs \<subseteq> R"
    and "linked POLE MAX_LAT R p"
  shows "linked POLE MAX_LAT R p' \<and> (\<forall>r. segment (heap p' r) = segment (heap p r)) \<and>
         renderedNodes p' = renderedNodes p"
  using assms
proof (induction xs arbitrary: p)
  case Nil
  then show ?case by simp
next
  case (Cons ni rest)
  from Cons.prems(1) obtain p1 where
    e: "encounter POLE MAX_LAT node ni p = Inr p1"
    and l: "addToRenderLoop POLE MAX_LAT node rest p1 = Inr p'"
    by (auto split: sum.splits)
  from Cons.prems have ne: "node \<noteq> ni" and niR: "ni \<in> R" by auto
  from encounter_linked [OF e ne Cons.prems(3) niR Cons.prems(5)]
  have inv1: "linked POLE MAX_LAT R p1" .
  from encounter_effect [OF e] have f1: "\<forall>r. segment (heap p1 r) = segment (heap p r)"
    "renderedNodes p1 = renderedNodes p"
    by blast+
  from Cons.IH [OF l _ Cons.prems(3) _ inv1] Cons.prems(2,4) f1 show ?case
    by simp
qed

lemma renderTreeReset_effect:
  assumes "renderTreeReset n p = Inr p1"
  shows "neighbor p1 x t = (if x = n then None else neighbor p x t)"
    and "segment (heap p1 r) = segment (heap p r)"
    and "renderedNodes p1 = renderedNodes p"
  using assms
  by (auto simp add: renderTreeReset_def Let_def updNode_def neighbor_def split: option.splits)

lemma linked_insert_fresh:
  assumes inv: "linked POLE MAX_LAT R p" and fresh: "n \<notin> R"
    and nb: "\<And>x t. neighbor p1 x t = (if x = n then None else neighbor p x t)"
    and segs: "\<And>r. segment (heap p1 r) = segment (heap p r)"
  shows "linked POLE MAX_LAT (insert n R) p1"
  unfolding linked_def
proof (intro ballI allI impI)
  fix x t y
  assume x: "x \<in> insert n R" and l: "neighbor p1 x t = Some y"
  from l nb have xn: "x \<noteq> n" and old: "neighbor p x t = Some y"
    by (auto split: if_splits)
  with x have xR: "x \<in> R" by simp
  from linkedD [OF inv xR old] have yR: "y \<in> R" and yx: "y \<noteq> x"
    and D: "neighbor p y (OPSIDE t) = Some x \<or>
            (\<exists>c\<in>R. c \<noteq> x \<and> c \<noteq> y \<and> sharesSide POLE MAX_LAT p y c (OPSIDE t))"
    by blast+
  from yR fresh have "y \<noteq> n" by blast
  then have "neighbor p1 y (OPSIDE t) = neighbor p y (OPSIDE t)" by (simp add: nb)
  with D yR yx show "y \<in> insert n R \<and> y \<noteq> x \<and>
         (neighbor p1 y (OPSIDE t) = Some x \<or>
          (\<exists>c\<in>insert n R. c \<noteq> x \<and> c \<noteq> y \<and> sharesSide POLE MAX_LAT p1 y c (OPSIDE t)))"
    by (auto simp add: sharesSide_frame [of p1 p, OF segs])
qed

lemma linked_cong:
  assumes "linked POLE MAX_LAT R p"
    and "\<And>x. neighbor p1 x = neighbor p x"
    and "\<And>r. segment (heap p1 r) = segment (heap p r)"
  shows "linked POLE MAX_LAT R p1"
  using assms(1) by (simp add: linked_def assms(2) sharesSide_frame [of p1 p, OF assms(3)])

lemma renderVisit_linked:
  assumes v: "renderVisit POLE MAX_LAT n p = Inr p'"
    and fresh: "n \<notin> set (renderedNodes p)"
    and inv: "linked POLE MAX_LAT (set (renderedNodes p)) p"
  shows "linked POLE MAX_LAT (set (renderedNodes p')) p' \<and>
         renderedNodes p' = renderedNodes p @ [n] \<and>
         (\<forall>r. segment (heap p' r) = segment (heap p r))"
proof -
  from v obtain p1 where r: "renderTreeReset n p = Inr p1"
    and a: "addToRender POLE MAX_LAT n p1 = Inr p'"
    by (auto simp add: renderVisit_def split: sum.splits)
  note re = renderTreeReset_effect [OF r]
  define p2 where "p2 = updNode n (\<lambda>x. x\<lparr>state := Some RENDERING\<rparr>) p1"
  have n2: "neighbor p2 x = neighbor p1 x" for x
    by (cases "x = n") (simp_all add: p2_def neighbor_def updNode_def fun_eq_iff)
  have s2: "segment (heap p2 x) = segment (heap p1 x)" for x
    by (simp add: p2_def updNode_def)
  have r2: "renderedNodes p2 = renderedNodes p"
    by (simp add: p2_def updNode_def re(3))
  from a obtain p3 where l: "addToRenderLoop POLE MAX_LAT n (rev (renderedNodes p)) p2 = Inr p3"
    and p': "p' = p3\<lparr>renderedNodes := renderedNodes p3 @ [n]\<rparr>"
    by (auto simp add: addToRender_def Let_def p2_def[symmetric] r2 split: sum.splits)
  have "linked POLE MAX_LAT (insert n (set (renderedNodes p))) p1"
    by (rule linked_insert_fresh [OF inv fresh]) (simp_all add: re)
  then have inv2: "linked POLE MAX_LAT (insert n (set (renderedNodes p))) p2"
    by (rule linked_cong) (simp_all add: n2 s2)
  from addToRenderLoop_linked [OF l _ _ _ inv2] fresh
  have inv3: "linked POLE MAX_LAT (insert n (set (renderedNodes p))) p3"
    and s3: "\<forall>r. segment (heap p3 r) = segment (heap p2 r)"
    and r3: "renderedNodes p3 = renderedNodes p2"
    by auto
  have "linked POLE MAX_LAT (insert n (set (renderedNodes p))) p'"
    by (rule linked_cong [OF inv3]) (simp_all add: p' neighbor_def fun_eq_iff)
  with s3 r3 show ?thesis
    by (simp add: p' r2 s2 re)
qed

lemma renderAll_linked:
  assumes "renderAll POLE MAX_LAT ns p = Inr p'"
    and "distinct ns" and "set ns \<inter> set (renderedNodes p) = {}"
    and "linked POLE MAX_LAT (set (renderedNodes p)) p"
  shows "linked POLE MAX_LAT (set (renderedNodes p')) p' \<and>
         renderedNodes p' = renderedNodes p @ ns \<and>
         (\<forall>r. segment (heap p' r) = segment (heap p r))"
  using assms
proof (induction ns arbitrary: p)
  case Nil
  then show ?case by simp
next
  case (Cons n ns)
  from Cons.prems(1) obtain p1 where v: "renderVisit POLE MAX_LAT n p = Inr p1"
    and rest: "renderAll POLE MAX_LAT ns p1 = Inr p'"
    by (auto split: sum.splits)
  from Cons.prems have fresh: "n \<notin> set (renderedNodes p)" by auto
  from renderVisit_linked [OF v fresh Cons.prems(4)]
  have inv1: "linked POLE MAX_LAT (set (renderedNodes p1)) p1"
    and r1: "renderedNodes p1 = renderedNodes p @ [n]"
    and s1: "\<forall>r. segment (heap p1 r) = segment (heap p r)"
    by blast+
  from Cons.prems(2,3) r1 have d: "distinct ns" "set ns \<inter> set (renderedNodes p1) = {}"
    by auto
  from Cons.IH [OF rest d inv1]
  have "linked POLE MAX_LAT (set (renderedNodes p')) p'"
    and "renderedNodes p' = renderedNodes p1 @ ns"
    and "\<forall>r. segment (heap p' r) = segment (heap p1 r)"
    by blast+
  with r1 s1 show ?case by simp
qed

lemma lodPlanet_facts:
  "segment (heap lodPlanet 1) = Some (plainSegment 1 (box 0 10 10 20))"
  "segment (heap lodPlanet 5) = Some (plainSegment 2 (box 10 15 15 20))"
  "segment (heap lodPlanet 7) = Some (plainSegment 2 (box 10 10 15 15))"
  "neighbors (heap lodPlanet 1) = Some (\<lambda>_. None)"
  "neighbors (heap lodPlanet 5) = Some (\<lambda>_. None)"
  "neighbors (heap lodPlanet 7) = Some (\<lambda>_. None)"
  "sideSize (heap lodPlanet 1) = Some (\<lambda>_. 1)"
  "sideSize (heap lodPlanet 5) = Some (\<lambda>_. 1)"
  "sideSize (heap lodPlanet 7) = Some (\<lambda>_. 1)"
  "hasNeighbor (heap lodPlanet 1) = (\<lambda>_. False)"
  "hasNeighbor (heap lodPlanet 5) = (\<lambda>_. False)"
  "hasNeighbor (heap lodPlanet 7) = (\<lambda>_. False)"
  "renderedNodes lodPlanet = []"
  by (simp_all add: lodPlanet_def createChildrenNodes_def Let_def setChild_def newNode_def
      updNode_def emptyPlanet_def getWidth_def getHeight_def plainSegment_def box_def)

lemma lod_sides:
  "getCommonSide 180 85 (plainSegment 2 (box 10 15 15 20)) (plainSegment 1 (box 0 10 10 20)) = Some W"
  "getCommonSide 180 85 (plainSegment 2 (box 10 10 15 15)) (plainSegment 2 (box 10 15 15 20)) = Some N"
  "getCommonSide 180 85 (plainSegment 2 (box 10 10 15 15)) (plainSegment 1 (box 0 10 10 20)) = Some W"
  by (simp_all add: getCommonSide_def plainSegment_def box_def Let_def)

lemma lod_frame:
  "\<exists>p. renderAll 180 85 [1, 5, 7] lodPlanet = Inr p \<and> renderedNodes p = [1, 5, 7] \<and>
     neighbor p 5 W = Some 1 \<and> neighbor p 1 E = Some 7 \<and>
     neighbor p 7 N = Some 5 \<and> neighbor p 5 S = Some 7 \<and> neighbor p 7 W = Some 1 \<and>
     (\<forall>r. segment (heap p r) = segment (heap lodPlanet r))"
  by (simp add: renderVisit_def renderTreeReset_def addToRender_def Let_def updNode_def
      lodPlanet_facts encounter_def lod_sides setNeighbor_def setSideSize_def setHasNeighbor_def
      neighbor_def del: One_nat_def)

text \<open>The slots after a frame: every slot of a registered node holds the node it met
  last on that side.\<close>

lemma encounter_links:
  assumes enc: "encounter POLE MAX_LAT node ni p = Inr p'"
  shows "(\<forall>r. segment (heap p' r) = segment (heap p r)) \<and>
     renderedNodes p' = renderedNodes p \<and>
     (\<forall>x t. neighbor p' x t =
        (if x = ni \<and> commonSide POLE MAX_LAT p node ni = Some (OPSIDE t) then Some node
         else if x = node \<and> commonSide POLE MAX_LAT p node ni = Some t then Some ni
         else neighbor p x t))"
proof -
  from encounter_effect [OF enc] obtain ap bp where
    ap: "segment (heap p node) = Some ap" and bp: "segment (heap p ni) = Some bp"
    and segs: "\<forall>r. segment (heap p' r) = segment (heap p r)"
      "renderedNodes p' = renderedNodes p"
    and eff: "case getCommonSide POLE MAX_LAT ap bp of
        None \<Rightarrow> neighbor p' = neighbor p
      | Some cs \<Rightarrow>
          (\<forall>x t. neighbor p' x t =
             (if x = ni \<and> t = OPSIDE cs then Some node
              else if x = node \<and> t = cs then Some ni
              else neighbor p x t))"
    by blast
  have c: "commonSide POLE MAX_LAT p node ni = getCommonSide POLE MAX_LAT ap bp"
    by (simp add: commonSide_def ap bp)
  show ?thesis
  proof (cases "getCommonSide POLE MAX_LAT ap bp")
    case None
    with eff segs c show ?thesis by simp
  next
    case (Some cs)
    from eff Some have N: "neighbor p' x t =
             (if x = ni \<and> t = OPSIDE cs then Some node
              else if x = node \<and> t = cs then Some ni
              else neighbor p x t)" for x t
      by simp
    have "neighbor p' x t =
        (if x = ni \<and> commonSide POLE MAX_LAT p node ni = Some (OPSIDE t) then Some node
         else if x = node \<and> commonSide POLE MAX_LAT p node ni = Some t then Some ni
         else neighbor p x t)" for x t
    proof (cases "t = OPSIDE cs")
      case True
      then show ?thesis by (simp add: N c Some)
    next
      case False
      then have "cs \<noteq> OPSIDE t" by auto
      with False show ?thesis by (auto simp add: N c Some)
    qed
    with segs show ?thesis by simp
  qed
qed

lemma addToRenderLoop_links:
  assumes "addToRenderLoop POLE MAX_LAT n xs q = Inr q'" and "n \<notin> set xs"
  shows "(\<forall>r. segment (heap q' r) = segment (heap q r)) \<and>
     renderedNodes q' = renderedNodes q \<and>
     (\<forall>x t. neighbor q' x t =
        (if x \<in> set xs \<and> commonSide POLE MAX_LAT q n x = Some (OPSIDE t) then Some n
         else if x = n then
           (case filter (\<lambda>c. commonSide POLE MAX_LAT q n c = Some t) xs of
              [] \<Rightarrow> neighbor q n t
            | c # cs \<Rightarrow> Some (last (c # cs)))
         else neighbor q x t))"
  using assms
proof (induction xs arbitrary: q)
  case Nil
  then show ?case by simp
next
  case (Cons ni rest)
  from Cons.prems(1) obtain q1 where
    e: "encounter POLE MAX_LAT n ni q = Inr q1"
    and l: "addToRenderLoop POLE MAX_LAT n rest q1 = Inr q'"
    by (auto split: sum.splits)
  from Cons.prems(2) have ne: "n \<noteq> ni" and nr: "n \<notin> set rest" by auto
  from encounter_links [OF e] have
    s1: "\<And>r. segment (heap q1 r) = segment (heap q r)"
    and r1: "renderedNodes q1 = renderedNodes q"
    and n1: "\<And>x t. neighbor q1 x t =
        (if x = ni \<and> commonSide POLE MAX_LAT q n ni = Some (OPSIDE t) then Some n
         else if x = n \<and> commonSide POLE MAX_LAT q n ni = Some t then Some ni
         else neighbor q x t)"
    by blast+
  have c1: "commonSide POLE MAX_LAT q1 x y = commonSide POLE MAX_LAT q x y" for x y
    by (rule commonSide_frame) (rule s1)
  from Cons.IH [OF l nr] have
    s': "\<And>r. segment (heap q' r) = segment (heap q1 r)"
    and r': "renderedNodes q' = renderedNodes q1"
    and n': "\<And>x t. neighbor q' x t =
        (if x \<in> set rest \<and> commonSide POLE MAX_LAT q n x = Some (OPSIDE t) then Some n
         else if x = n then
           (case filter (\<lambda>c. commonSide POLE MAX_LAT q n c = Some t) rest of
              [] \<Rightarrow> neighbor q1 n t
            | c # cs \<Rightarrow> Some (last (c # cs)))
         else neighbor q1 x t)"
    by (simp_all add: c1)
  have "neighbor q' x t =
        (if x \<in> set (ni # rest) \<and> commonSide POLE MAX_LAT q n x = Some (OPSIDE t) then Some n
         else if x = n then
           (case filter (\<lambda>c. commonSide POLE MAX_LAT q n c = Some t) (ni # rest) of
              [] \<Rightarrow> neighbor q n t
            | c # cs \<Rightarrow> Some (last (c # cs)))
         else neighbor q x t)" for x t
    using ne by (auto simp add: n' n1 split: list.splits)
  with s' s1 r' r1 show ?case by simp
qed

lemma lastMet_old:
  assumes x: "x \<in> set R"
  shows "lastMet POLE MAX_LAT p (R @ [n]) x t =
     (if commonSide POLE MAX_LAT p n x = Some (OPSIDE t) then Some n
      else lastMet POLE MAX_LAT p R x t)"
proof -
  from x have d: "dropWhile (\<lambda>y. y \<noteq> x) (R @ [n]) = dropWhile (\<lambda>y. y \<noteq> x) R @ [n]"
    by (intro dropWhile_append1) auto
  from x have ne: "dropWhile (\<lambda>y. y \<noteq> x) R \<noteq> []"
    by (simp add: dropWhile_eq_Nil_conv)
  from x have t: "takeWhile (\<lambda>y. y \<noteq> x) (R @ [n]) = takeWhile (\<lambda>y. y \<noteq> x) R"
    by (intro takeWhile_append1) auto
  show ?thesis
    unfolding lastMet_def d t using ne by (simp add: Let_def)
qed

lemma lastMet_new:
  assumes n: "n \<notin> set R"
  shows "lastMet POLE MAX_LAT p (R @ [n]) n t =
     (case filter (\<lambda>c. commonSide POLE MAX_LAT p n c = Some t) R of
        [] \<Rightarrow> None
      | c # cs \<Rightarrow> Some c)"
proof -
  from n have d: "dropWhile (\<lambda>y. y \<noteq> n) (R @ [n]) = [n]"
    by (subst dropWhile_append2) auto
  from n have t: "takeWhile (\<lambda>y. y \<noteq> n) (R @ [n]) = R"
    by (subst takeWhile_append2) auto
  show ?thesis
    unfolding lastMet_def d t by (simp add: Let_def split: list.splits)
qed

lemma lastMet_frame:
  assumes "\<And>r. segment (heap p' r) = segment (heap p r)"
  shows "lastMet POLE MAX_LAT p' ns b t = lastMet POLE MAX_LAT p ns b t"
  by (simp add: lastMet_def commonSide_frame [of p' p, OF assms])

lemma renderVisit_met:
  assumes v: "renderVisit POLE MAX_LAT n p = Inr p'"
    and fresh: "n \<notin> set (renderedNodes p)"
    and inv: "\<forall>x\<in>set (renderedNodes p). \<forall>t.
                neighbor p x t = lastMet POLE MAX_LAT p (renderedNodes p) x t"
  shows "(\<forall>x\<in>set (renderedNodes p'). \<forall>t.
            neighbor p' x t = lastMet POLE MAX_LAT p' (renderedNodes p') x t) \<and>
         renderedNodes p' = renderedNodes p @ [n] \<and>
         (\<forall>r. segment (heap p' r) = segment (heap p r))"
proof -
  define R where "R = renderedNodes p"
  from v obtain p1 where r: "renderTreeReset n p = Inr p1"
    and a: "addToRender POLE MAX_LAT n p1 = Inr p'"
    by (auto simp add: renderVisit_def split: sum.splits)
  note re = renderTreeReset_effect [OF r]
  define p2 where "p2 = updNode n (\<lambda>x. x\<lparr>state := Some RENDERING\<rparr>) p1"
  have n2: "neighbor p2 x t = (if x = n then None else neighbor p x t)" for x t
    by (cases "x = n") (simp_all add: p2_def neighbor_def updNode_def re(1) [unfolded neighbor_def])
  have s2: "segment (heap p2 x) = segment (heap p x)" for x
    by (simp add: p2_def updNode_def re(2))
  have r2: "renderedNodes p2 = R"
    by (simp add: p2_def updNode_def re(3) R_def)
  from a obtain p3 where l: "addToRenderLoop POLE MAX_LAT n (rev R) p2 = Inr p3"
    and p': "p' = p3\<lparr>renderedNodes := renderedNodes p3 @ [n]\<rparr>"
    by (auto simp add: addToRender_def Let_def p2_def[symmetric] r2 split: sum.splits)
  from fresh have nR: "n \<notin> set (rev R)" by (simp add: R_def)
  from addToRenderLoop_links [OF l nR] have
    s3: "\<And>r. segment (heap p3 r) = segment (heap p2 r)"
    and r3: "renderedNodes p3 = R"
    and n3: "\<And>x t. neighbor p3 x t =
        (if x \<in> set (rev R) \<and> commonSide POLE MAX_LAT p2 n x = Some (OPSIDE t) then Some n
         else if x = n then
           (case filter (\<lambda>c. commonSide POLE MAX_LAT p2 n c = Some t) (rev R) of
              [] \<Rightarrow> neighbor p2 n t
            | c # cs \<Rightarrow> Some (last (c # cs)))
         else neighbor p2 x t)"
    by (simp_all add: r2)
  have sp: "segment (heap p' r) = segment (heap p r)" for r
    by (simp add: p' s3 s2)
  have rp: "renderedNodes p' = R @ [n]" by (simp add: p' r3)
  have np: "neighbor p' = neighbor p3" by (simp add: p' neighbor_def fun_eq_iff)
  have c2: "commonSide POLE MAX_LAT p2 x y = commonSide POLE MAX_LAT p x y" for x y
    by (rule commonSide_frame) (rule s2)
  note lf = lastMet_frame [of p' p, OF sp]
  have old: "neighbor p' x t = lastMet POLE MAX_LAT p' (R @ [n]) x t" if x: "x \<in> set R" for x t
  proof -
    from x fresh have xn: "x \<noteq> n" by (auto simp add: R_def)
    from inv x have "neighbor p x t = lastMet POLE MAX_LAT p R x t" by (simp add: R_def)
    with x xn show ?thesis
      by (simp add: np n3 n2 c2 lf lastMet_old)
  qed
  have new: "neighbor p' n t = lastMet POLE MAX_LAT p' (R @ [n]) n t" for t
  proof -
    from fresh have f: "n \<notin> set R" by (simp add: R_def)
    define l where "l = filter (\<lambda>c. commonSide POLE MAX_LAT p n c = Some t) R"
    have a: "lastMet POLE MAX_LAT p' (R @ [n]) n t = (if l = [] then None else Some (hd l))"
      unfolding lf unfolding lastMet_new [OF f] l_def by (simp split: list.splits)
    have "neighbor p' n t = (case rev l of [] \<Rightarrow> None | c # cs \<Rightarrow> Some (last (c # cs)))"
      using f by (simp add: np n3 n2 c2 l_def rev_filter cong: list.case_cong)
    also have "\<dots> = (if rev l = [] then None else Some (last (rev l)))"
      by (cases "rev l") simp_all
    also have "\<dots> = (if l = [] then None else Some (hd l))"
      by (simp add: last_rev)
    finally show ?thesis by (simp add: a)
  qed
  from old new sp rp show ?thesis
    by (auto simp add: R_def)
qed

lemma renderAll_met:
  assumes "renderAll POLE MAX_LAT ns p = Inr p'"
    and "distinct ns" and "set ns \<inter> set (renderedNodes p) = {}"
    and "\<forall>x\<in>set (renderedNodes p). \<forall>t.
           neighbor p x t = lastMet POLE MAX_LAT p (renderedNodes p) x t"
  shows "\<forall>x\<in>set (renderedNodes p'). \<forall>t.
           neighbor p' x t = lastMet POLE MAX_LAT p' (renderedNodes p') x t"
  using assms
proof (induction ns arbitrary: p)
  case Nil
  then show ?case by simp
next
  case (Cons n ns)
  from Cons.prems(1) obtain p1 where v: "renderVisit POLE MAX_LAT n p = Inr p1"
    and rest: "renderAll POLE MAX_LAT ns p1 = Inr p'"
    by (auto split: sum.splits)
  from Cons.prems have fresh: "n \<notin> set (renderedNodes p)" by auto
  from renderVisit_met [OF v fresh Cons.prems(4)]
  have inv1: "\<forall>x\<in>set (renderedNodes p1). \<forall>t.
           neighbor p1 x t = lastMet POLE MAX_LAT p1 (renderedNodes p1) x t"
    and r1: "renderedNodes p1 = renderedNodes p @ [n]"
    by blast+
  from Cons.prems(2,3) r1 have d: "distinct ns" "set ns \<inter> set (renderedNodes p1) = {}"
    by auto
  from Cons.IH [OF rest d inv1] show ?case .
qed

lemma lod_frame2:
  "\<exists>p. renderAll 180 85 [5, 7, 1] lodPlanet = Inr p \<and> renderedNodes p = [5, 7, 1] \<and>
     neighbor p 5 W = Some 1 \<and> neighbor p 1 E = Some 5 \<and> neighbor p 7 W = Some 1 \<and>
     (\<forall>r. segment (heap p r) = segment (heap lodPlanet r))"
  by (simp add: renderVisit_def renderTreeReset_def addToRender_def Let_def updNode_def
      lodPlanet_facts encounter_def lod_sides setNeighbor_def setSideSize_def setHasNeighbor_def
      neighbor_def getCommonSide_def plainSegment_def box_def del: One_nat_def)

lemma lod_sides_back:
  "getCommonSide 180 85 (plainSegment 1 (box 0 10 10 20)) (plainSegment 2 (box 10 15 15 20)) = Some E"
  "getCommonSide 180 85 (plainSegment 1 (box 0 10 10 20)) (plainSegment 2 (box 10 10 15 15)) = Some E"
  "getCommonSide 180 85 (plainSegment 2 (box 10 15 15 20)) (plainSegment 2 (box 10 10 15 15)) = Some S"
  by (simp_all add: getCommonSide_def plainSegment_def box_def Let_def)

lemma lod_lastMet:
  "lastMet 180 85 lodPlanet [1, 5, 7] 1 E = Some 7"
  "lastMet 180 85 lodPlanet [5, 7, 1] 1 E = Some 5"
  by (simp_all add: lastMet_def commonSide_def lodPlanet_facts lod_sides lod_sides_back Let_def
      del: One_nat_def)

text \<open>Claim C2, as amended. After a frame in which every rendered node is registered
  once, for nodes \<open>a\<close> and \<open>b\<close> of the rendered list and a side \<open>s\<close>:
  \<open>a.neighbors[s] == b\<close> implies that \<open>b\<close> is rendered and that
  \<open>b.neighbors[opposite(s)]\<close> is the node \<open>b\<close> met last on that side; it is \<open>a\<close>
  whenever no other rendered node lies across side \<open>opposite(s)\<close> of \<open>b\<close>. A node has
  one slot per side: with two finer tiles along one side of a coarser tile, the slot of
  the coarser tile holds the one it met last and the link of the other one is not
  returned. The counterexample to the claim as stated is such a frame: node 5 has node 1
  on its west side, and node 1 has node 7 on its east side.\<close>

theorem frame_neighbor_symmetry:
  assumes frame: "renderAll POLE MAX_LAT ns p0 = Inr p"
    and start: "renderedNodes p0 = []"
    and once: "distinct ns"
    and a: "a \<in> set (renderedNodes p)"
    and link: "neighbor p a s = Some b"
  shows "b \<in> set (renderedNodes p) \<and>
     neighbor p b (OPSIDE s) = lastMet POLE MAX_LAT p (renderedNodes p) b (OPSIDE s) \<and>
     ((\<forall>c\<in>set (renderedNodes p). c \<noteq> a \<and> c \<noteq> b \<longrightarrow>
          \<not> sharesSide POLE MAX_LAT p b c (OPSIDE s)) \<longrightarrow>
      neighbor p b (OPSIDE s) = Some a)"
proof -
  have e: "set ns \<inter> set (renderedNodes p0) = {}"
    by (simp add: start)
  have "linked POLE MAX_LAT (set (renderedNodes p0)) p0"
    by (simp add: start linked_def)
  with renderAll_linked [OF frame once e]
  have inv: "linked POLE MAX_LAT (set (renderedNodes p)) p" by blast
  have "\<forall>x\<in>set (renderedNodes p0). \<forall>t.
           neighbor p0 x t = lastMet POLE MAX_LAT p0 (renderedNodes p0) x t"
    by (simp add: start)
  from renderAll_met [OF frame once e this]
  have met: "\<forall>x\<in>set (renderedNodes p). \<forall>t.
           neighbor p x t = lastMet POLE MAX_LAT p (renderedNodes p) x t" .
  from linkedD [OF inv a link] have b: "b \<in> set (renderedNodes p)"
    and D: "neighbor p b (OPSIDE s) = Some a \<or>
      (\<exists>c\<in>set (renderedNodes p). c \<noteq> a \<and> c \<noteq> b \<and> sharesSide POLE MAX_LAT p b c (OPSIDE s))"
    by blast+
  from met b have "neighbor p b (OPSIDE s) = lastMet POLE MAX_LAT p (renderedNodes p) b (OPSIDE s)"
    by blast
  with b D show ?thesis by blast
qed

theorem frame_neighbor_symmetry_counterexample:
  "(case renderAll 180 85 [1, 5, 7] lodPlanet of
      Inr p \<Rightarrow>
        5 \<in> set (renderedNodes p) \<and> 1 \<in> set (renderedNodes p) \<and>
        neighbor p 5 W = Some 1 \<and> neighbor p 1 (OPSIDE W) \<noteq> Some 5
    | Inl e \<Rightarrow> False)"
proof -
  from lod_frame obtain p where "renderAll 180 85 [1, 5, 7] lodPlanet = Inr p"
    "renderedNodes p = [1, 5, 7]" "neighbor p 5 W = Some 1" "neighbor p 1 E = Some 7"
    by blast
  then show ?thesis by simp
qed

theorem frame_neighbor_symmetry_witness:
  "(\<exists>p. renderAll 180 85 [1, 5, 7] lodPlanet = Inr p \<and>
      neighbor p 7 N = Some 5 \<and> 5 \<in> set (renderedNodes p) \<and> neighbor p 5 (OPSIDE N) = Some 7 \<and>
      neighbor p 5 W = Some 1 \<and> neighbor p 1 (OPSIDE W) = Some 7) \<and>
   (\<exists>p. renderAll 180 85 [5, 7, 1] lodPlanet = Inr p \<and>
      neighbor p 7 W = Some 1 \<and> neighbor p 1 (OPSIDE W) = Some 5)"
proof -
  have start: "renderedNodes lodPlanet = []" by (rule lodPlanet_facts)
  have first: "\<exists>p. renderAll 180 85 [1, 5, 7] lodPlanet = Inr p \<and>
      neighbor p 7 N = Some 5 \<and> 5 \<in> set (renderedNodes p) \<and> neighbor p 5 (OPSIDE N) = Some 7 \<and>
      neighbor p 5 W = Some 1 \<and> neighbor p 1 (OPSIDE W) = Some 7"
  proof -
    from lod_frame obtain p where f: "renderAll 180 85 [1, 5, 7] lodPlanet = Inr p"
      and r: "renderedNodes p = [1, 5, 7]" and l: "neighbor p 7 N = Some 5"
      and l2: "neighbor p 5 W = Some 1"
      and segs: "\<And>r. segment (heap p r) = segment (heap lodPlanet r)"
      by blast
    have once: "distinct [1::nat, 5, 7]" by simp
    have a: "7 \<in> set (renderedNodes p)" "5 \<in> set (renderedNodes p)" by (simp_all add: r)
    have single: "\<forall>c\<in>set (renderedNodes p). c \<noteq> 7 \<and> c \<noteq> 5 \<longrightarrow>
                   \<not> sharesSide 180 85 p 5 c (OPSIDE N)"
      by (simp add: r sharesSide_def segs lodPlanet_facts lod_sides lod_sides_back
          del: One_nat_def)
    from frame_neighbor_symmetry [OF f start once a(1) l] single
    have x: "5 \<in> set (renderedNodes p)" "neighbor p 5 (OPSIDE N) = Some 7" by blast+
    from frame_neighbor_symmetry [OF f start once a(2) l2]
    have "neighbor p 1 (OPSIDE W) = lastMet 180 85 p (renderedNodes p) 1 (OPSIDE W)" by blast
    also have "\<dots> = lastMet 180 85 lodPlanet [1, 5, 7] 1 E"
      by (simp add: r lastMet_frame [of p lodPlanet, OF segs])
    finally have y: "neighbor p 1 (OPSIDE W) = Some 7"
      by (simp add: lod_lastMet del: One_nat_def)
    from f l l2 x y show ?thesis by blast
  qed
  have second: "\<exists>p. renderAll 180 85 [5, 7, 1] lodPlanet = Inr p \<and>
      neighbor p 7 W = Some 1 \<and> neighbor p 1 (OPSIDE W) = Some 5"
  proof -
    from lod_frame2 obtain p where f: "renderAll 180 85 [5, 7, 1] lodPlanet = Inr p"
      and r: "renderedNodes p = [5, 7, 1]" and l: "neighbor p 7 W = Some 1"
      and segs: "\<And>r. segment (heap p r) = segment (heap lodPlanet r)"
      by blast
    have once: "distinct [5::nat, 7, 1]" by simp
    have a: "7 \<in> set (renderedNodes p)" by (simp add: r)
    from frame_neighbor_symmetry [OF f start once a l]
    have "neighbor p 1 (OPSIDE W) = lastMet 180 85 p (renderedNodes p) 1 (OPSIDE W)" by blast
    also have "\<dots> = lastMet 180 85 lodPlanet [5, 7, 1] 1 E"
      by (simp add: r lastMet_frame [of p lodPlanet, OF segs])
    finally have "neighbor p 1 (OPSIDE W) = Some 5"
      by (simp add: lod_lastMet del: One_nat_def)
    with f l show ?thesis by blast
  qed
  from first second show ?thesis by blast
qed

subsection \<open>Reachable states and destroy\<close>

lemma pairedD:
  "paired p \<Longrightarrow> neighbor p x s = Some y \<Longrightarrow> neighbor p y t = Some x \<Longrightarrow> t = OPSIDE s"
  unfolding paired_def by blast

lemma paired_shrink:
  assumes "paired p" and "\<And>x s y. neighbor p' x s = Some y \<Longrightarrow> neighbor p x s = Some y"
  shows "paired p'"
  using assms unfolding paired_def by blast

lemma encounter_registering:
  assumes enc: "encounter POLE MAX_LAT n ni p = Inr p'"
    and fresh: "n \<notin> R" and niR: "ni \<in> R"
    and inv: "registering POLE MAX_LAT n R p"
  shows "registering POLE MAX_LAT n R p'"
proof -
  from fresh niR have ne: "n \<noteq> ni" by blast
  from encounter_effect [OF enc] obtain ap bp where
    ap: "segment (heap p n) = Some ap" and bp: "segment (heap p ni) = Some bp"
    and segs: "\<And>r. segment (heap p' r) = segment (heap p r)"
    and eff: "case getCommonSide POLE MAX_LAT ap bp of
        None \<Rightarrow> neighbor p' = neighbor p
      | Some cs \<Rightarrow>
          (\<forall>x t. neighbor p' x t =
             (if x = ni \<and> t = OPSIDE cs then Some n
              else if x = n \<and> t = cs then Some ni
              else neighbor p x t))"
    by blast
  note C = commonSide_frame [of p' p, OF segs]
  from inv have pr: "paired p"
    and two: "\<And>x t y. x \<in> R \<Longrightarrow> neighbor p x t = Some y \<Longrightarrow>
         y \<in> R \<or> (y = n \<and> commonSide POLE MAX_LAT p n x = Some (OPSIDE t))"
    and three: "\<And>s y. neighbor p n s = Some y \<Longrightarrow> y \<in> R \<and> commonSide POLE MAX_LAT p n y = Some s"
    unfolding registering_def by blast+
  show ?thesis
  proof (cases "getCommonSide POLE MAX_LAT ap bp")
    case None
    with eff have "neighbor p' = neighbor p" by simp
    with inv show ?thesis by (simp add: registering_def paired_def C)
  next
    case (Some cs)
    with eff have N: "neighbor p' x t =
             (if x = ni \<and> t = OPSIDE cs then Some n
              else if x = n \<and> t = cs then Some ni
              else neighbor p x t)" for x t
      by simp
    have cs: "commonSide POLE MAX_LAT p n ni = Some cs"
      using ap bp Some by (simp add: commonSide_def)
    have two': "y \<in> R \<or> (y = n \<and> commonSide POLE MAX_LAT p n x = Some (OPSIDE t))"
      if "x \<in> R" "neighbor p' x t = Some y" for x t y
    proof (cases "x = ni \<and> t = OPSIDE cs")
      case True
      with that N cs show ?thesis by simp
    next
      case False
      with that fresh N have "neighbor p x t = Some y" by (auto split: if_splits)
      with two that show ?thesis by blast
    qed
    have three': "y \<in> R \<and> commonSide POLE MAX_LAT p n y = Some s"
      if "neighbor p' n s = Some y" for s y
    proof (cases "s = cs")
      case True
      with that N ne niR cs show ?thesis by simp
    next
      case False
      with that N ne have "neighbor p n s = Some y" by (auto split: if_splits)
      with three show ?thesis by blast
    qed
    have "t = OPSIDE s" if l1: "neighbor p' x s = Some y" and l2: "neighbor p' y t = Some x"
      for x y s t
    proof -
      consider (xn) "x = n" | (yn) "x \<noteq> n" "y = n" | (old) "x \<noteq> n" "y \<noteq> n" by blast
      then show ?thesis
      proof cases
        case xn
        from three' l1 xn have yR: "y \<in> R" and c1: "commonSide POLE MAX_LAT p n y = Some s"
          by blast+
        from two' [OF yR l2] xn fresh have "commonSide POLE MAX_LAT p n y = Some (OPSIDE t)"
          by blast
        with c1 have "s = OPSIDE t" by simp
        then show ?thesis by simp
      next
        case yn
        from three' l2 yn have xR: "x \<in> R" and c1: "commonSide POLE MAX_LAT p n x = Some t"
          by blast+
        from two' [OF xR l1] yn fresh have "commonSide POLE MAX_LAT p n x = Some (OPSIDE s)"
          by blast
        with c1 show ?thesis by simp
      next
        case old
        with l1 l2 N have "neighbor p x s = Some y" "neighbor p y t = Some x"
          by (auto split: if_splits)
        with pr show ?thesis by (rule pairedD)
      qed
    qed
    then have "paired p'" unfolding paired_def by blast
    with two' three' show ?thesis
      unfolding registering_def by (auto simp add: C)
  qed
qed

lemma addToRenderLoop_registering:
  assumes "addToRenderLoop POLE MAX_LAT n xs p = Inr p'"
    and "n \<notin> R" and "set xs \<subseteq> R"
    and "registering POLE MAX_LAT n R p"
  shows "registering POLE MAX_LAT n R p' \<and> renderedNodes p' = renderedNodes p"
  using assms
proof (induction xs arbitrary: p)
  case Nil
  then show ?case by simp
next
  case (Cons ni rest)
  from Cons.prems(1) obtain p1 where
    e: "encounter POLE MAX_LAT n ni p = Inr p1"
    and l: "addToRenderLoop POLE MAX_LAT n rest p1 = Inr p'"
    by (auto split: sum.splits)
  from Cons.prems have niR: "ni \<in> R" and rest: "set rest \<subseteq> R" by auto
  from encounter_registering [OF e Cons.prems(2) niR Cons.prems(4)]
  have inv1: "registering POLE MAX_LAT n R p1" .
  from encounter_effect [OF e] have "renderedNodes p1 = renderedNodes p" by blast
  with Cons.IH [OF l Cons.prems(2) rest inv1] show ?case by simp
qed

text \<open>The invariant of the reachable states: the rendered list has no duplicates,
  the links of rendered nodes stay among the rendered nodes, and links come in pairs.\<close>

lemma invariant_shrink:
  assumes "distinct (renderedNodes p) \<and> closedLinks p \<and> paired p"
    and "renderedNodes p' = renderedNodes p"
    and "\<And>x s y. neighbor p' x s = Some y \<Longrightarrow> neighbor p x s = Some y"
  shows "distinct (renderedNodes p') \<and> closedLinks p' \<and> paired p'"
proof -
  from assms(1,3) have "paired p'" by (blast intro: paired_shrink)
  moreover from assms have "closedLinks p'" unfolding closedLinks_def by metis
  ultimately show ?thesis using assms(1,2) by simp
qed

lemma renderVisit_invariant:
  assumes v: "renderVisit POLE MAX_LAT n p = Inr p'"
    and fresh: "n \<notin> set (renderedNodes p)"
    and inv: "distinct (renderedNodes p) \<and> closedLinks p \<and> paired p"
  shows "distinct (renderedNodes p') \<and> closedLinks p' \<and> paired p'"
proof -
  from v obtain p1 where r: "renderTreeReset n p = Inr p1"
    and a: "addToRender POLE MAX_LAT n p1 = Inr p'"
    by (auto simp add: renderVisit_def split: sum.splits)
  note re = renderTreeReset_effect [OF r]
  define p2 where "p2 = updNode n (\<lambda>x. x\<lparr>state := Some RENDERING\<rparr>) p1"
  have n2: "neighbor p2 x = neighbor p1 x" for x
    by (cases "x = n") (simp_all add: p2_def neighbor_def updNode_def fun_eq_iff)
  have s2: "segment (heap p2 x) = segment (heap p x)" for x
    by (simp add: p2_def updNode_def re)
  have r2: "renderedNodes p2 = renderedNodes p"
    by (simp add: p2_def updNode_def re(3))
  from a obtain p3 where l: "addToRenderLoop POLE MAX_LAT n (rev (renderedNodes p)) p2 = Inr p3"
    and p': "p' = p3\<lparr>renderedNodes := renderedNodes p3 @ [n]\<rparr>"
    by (auto simp add: addToRender_def Let_def p2_def[symmetric] r2 split: sum.splits)
  have nb2: "neighbor p2 x t = (if x = n then None else neighbor p x t)" for x t
    by (simp add: n2 re)
  from inv have "paired p2"
    by (elim conjE paired_shrink) (auto simp add: nb2 split: if_splits)
  moreover from inv have "\<forall>x\<in>set (renderedNodes p). \<forall>t y. neighbor p2 x t = Some y \<longrightarrow>
         y \<in> set (renderedNodes p)"
    unfolding closedLinks_def by (auto simp add: nb2 split: if_splits)
  ultimately have "registering POLE MAX_LAT n (set (renderedNodes p)) p2"
    unfolding registering_def by (auto simp add: nb2)
  from addToRenderLoop_registering [OF l fresh _ this]
  have inv3: "registering POLE MAX_LAT n (set (renderedNodes p)) p3"
    and r3: "renderedNodes p3 = renderedNodes p"
    by (simp_all add: r2)
  have n': "neighbor p' x = neighbor p3 x" for x
    by (simp add: p' neighbor_def fun_eq_iff)
  from inv3 have "paired p'"
    unfolding registering_def paired_def by (simp add: n')
  moreover have rp: "renderedNodes p' = renderedNodes p @ [n]"
    by (simp add: p' r3)
  from inv3 have "closedLinks p'"
    unfolding registering_def closedLinks_def n' rp by auto
  moreover from inv fresh have "distinct (renderedNodes p')"
    by (simp add: p' r3)
  ultimately show ?thesis by simp
qed

lemma neighbor_updNode_same:
  "neighbors (f (heap p r)) = neighbors (heap p r) \<Longrightarrow> neighbor (updNode r f p) x = neighbor p x"
  by (cases "x = r") (simp_all add: neighbor_def updNode_def fun_eq_iff)

lemma newNode_neighbor:
  "neighbor (snd (newNode sp pid par i z e p)) x t =
     (if x = createdNodesCount p then None else neighbor p x t)"
  by (simp add: newNode_def Let_def neighbor_def)

lemma newNode_renderedNodes:
  "renderedNodes (snd (newNode sp pid par i z e p)) = renderedNodes p"
  by (simp add: newNode_def Let_def)

lemma setChild_neighbor:
  "neighbor (setChild this q rp) x = neighbor (snd rp) x"
  by (simp add: setChild_def neighbor_updNode_same)

lemma setChild_renderedNodes:
  "renderedNodes (setChild this q rp) = renderedNodes (snd rp)"
  by (simp add: setChild_def updNode_def)

lemma createChildrenNodes_shrink:
  assumes "createChildrenNodes r p = Inr p'"
  shows "renderedNodes p' = renderedNodes p"
    and "neighbor p' x s = Some y \<Longrightarrow> neighbor p x s = Some y"
proof -
  define p0 where "p0 = updNode r (\<lambda>n. n\<lparr>childrenReady := True\<rparr>) p"
  have n0: "neighbor p0 x = neighbor p x" for x
    by (simp add: p0_def neighbor_updNode_same)
  have r0: "renderedNodes p0 = renderedNodes p"
    by (simp add: p0_def updNode_def)
  from assms obtain ps where ps: "segment (heap p0 r) = Some ps"
    by (auto simp add: createChildrenNodes_def Let_def p0_def split: option.splits)
  from assms ps show "renderedNodes p' = renderedNodes p"
    unfolding createChildrenNodes_def Let_def p0_def[symmetric]
    by (auto simp add: setChild_renderedNodes newNode_renderedNodes r0)
  assume "neighbor p' x s = Some y"
  with assms ps show "neighbor p x s = Some y"
    unfolding createChildrenNodes_def Let_def p0_def[symmetric]
    by (auto simp add: setChild_neighbor newNode_neighbor n0 split: if_splits)
qed

text \<open>\<open>unlink\<close> removes at most one link; \<open>destroy\<close> only removes links.\<close>

lemma unlink_neighbor:
  "neighbor (unlink this s t p) y u =
     (if neighbor p this s = Some y \<and> u = t then None else neighbor p y u)"
proof (cases "neighbor p this s")
  case None
  then show ?thesis by (simp add: unlink_def)
next
  case (Some x)
  show ?thesis
  proof (cases "neighbors (heap p x)")
    case None
    with Some show ?thesis by (auto simp add: unlink_def neighbor_def)
  next
    case (Some nb)
    with \<open>neighbor p this s = Some x\<close> show ?thesis
      by (cases "y = x") (auto simp add: unlink_def neighbor_def updNode_def)
  qed
qed

lemma unlink_renderedNodes: "renderedNodes (unlink this s t p) = renderedNodes p"
  by (simp add: unlink_def updNode_def split: option.splits)

lemma unlink_shrink:
  "neighbor (unlink this s t p) y u = Some z \<Longrightarrow> neighbor p y u = Some z"
  by (simp add: unlink_neighbor split: if_splits)

lemma destroy_shrink:
  assumes "destroy d p = Inr p'"
  shows "renderedNodes p' = renderedNodes p"
    and "neighbor p' x u = Some y \<Longrightarrow> neighbor p x u = Some y"
    and "neighbor p' d u = None"
proof -
  define p0 where "p0 = updNode d (\<lambda>n. n\<lparr>state := Some NOTRENDERING\<rparr>) p"
  have n0: "neighbor p0 x = neighbor p x" for x
    by (simp add: p0_def neighbor_updNode_same)
  have r0: "renderedNodes p0 = renderedNodes p"
    by (simp add: p0_def updNode_def)
  define p4 where "p4 = unlink d W E (unlink d S N (unlink d E W (unlink d N S p0)))"
  from assms have p': "p' = updNode d (\<lambda>n. n\<lparr>neighbors := None, parentNode := None,
       sideSize := None, segment := None\<rparr>) p4"
    by (auto simp add: destroy_def Let_def p0_def[symmetric] p4_def split: option.splits)
  show "renderedNodes p' = renderedNodes p"
    by (simp add: p' p4_def unlink_renderedNodes r0 updNode_def)
  show "neighbor p' d u = None"
    by (simp add: p' neighbor_def updNode_def)
  assume l: "neighbor p' x u = Some y"
  then have "x \<noteq> d" by (auto simp add: p' neighbor_def updNode_def)
  with l have "neighbor p4 x u = Some y" by (simp add: p' neighbor_def updNode_def)
  then have "neighbor p0 x u = Some y"
    unfolding p4_def by (blast dest: unlink_shrink)
  then show "neighbor p x u = Some y" by (simp add: n0)
qed

lemma destroy_unlinks:
  assumes "destroy d p = Inr p'"
    and noself: "\<And>s. neighbor p d s \<noteq> Some d"
    and link: "neighbor p d s = Some x"
  shows "neighbor p' x (OPSIDE s) = None"
proof -
  define p0 where "p0 = updNode d (\<lambda>n. n\<lparr>state := Some NOTRENDERING\<rparr>) p"
  have n0: "neighbor p0 x = neighbor p x" for x
    by (simp add: p0_def neighbor_updNode_same)
  define p4 where "p4 = unlink d W E (unlink d S N (unlink d E W (unlink d N S p0)))"
  from assms have p': "p' = updNode d (\<lambda>n. n\<lparr>neighbors := None, parentNode := None,
       sideSize := None, segment := None\<rparr>) p4"
    by (auto simp add: destroy_def Let_def p0_def[symmetric] p4_def split: option.splits)
  from noself link have xd: "x \<noteq> d" by auto
  then have "neighbor p' x (OPSIDE s) = neighbor p4 x (OPSIDE s)"
    by (simp add: p' neighbor_def updNode_def)
  also have "\<dots> = None"
    using link noself by (cases s) (simp_all add: p4_def unlink_neighbor n0)
  finally show ?thesis .
qed

lemma reachable_invariant:
  "reachable POLE MAX_LAT p \<Longrightarrow> distinct (renderedNodes p) \<and> closedLinks p \<and> paired p"
proof (induction rule: reachable.induct)
  case start
  show ?case
    by (simp add: emptyPlanet_def closedLinks_def paired_def neighbor_def)
next
  case (create p sp pid par ident z ext)
  from create.IH show ?case
    by (rule invariant_shrink) (auto simp add: newNode_renderedNodes newNode_neighbor split: if_splits)
next
  case (children p r p')
  from children.IH show ?case
    by (rule invariant_shrink)
      (auto simp add: createChildrenNodes_shrink(1) [OF children.hyps(2)]
         dest: createChildrenNodes_shrink(2) [OF children.hyps(2)])
next
  case (frame p)
  have "neighbor (p\<lparr>renderedNodes := []\<rparr>) = neighbor p"
    by (simp add: neighbor_def fun_eq_iff)
  with frame.IH show ?case
    by (simp add: closedLinks_def paired_def)
next
  case (visit p n p')
  note re = renderTreeReset_effect [OF visit.hyps(3)]
  from visit.IH show ?case
    by (rule invariant_shrink) (auto simp add: re split: if_splits)
next
  case (render p n p')
  from renderVisit_invariant [OF render.hyps(3) render.hyps(2) render.IH] show ?case .
next
  case (destroyed p d p')
  from destroyed.IH show ?case
    by (rule invariant_shrink)
      (auto simp add: destroy_shrink(1) [OF destroyed.hyps(2)]
         dest: destroy_shrink(2) [OF destroyed.hyps(2)])
qed

lemma addToRenderLoop_renderedNodes:
  "addToRenderLoop POLE MAX_LAT n xs p = Inr p' \<Longrightarrow> renderedNodes p' = renderedNodes p"
proof (induction xs arbitrary: p)
  case Nil
  then show ?case by simp
next
  case (Cons ni rest)
  from Cons.prems obtain p1 where
    e: "encounter POLE MAX_LAT n ni p = Inr p1"
    and l: "addToRenderLoop POLE MAX_LAT n rest p1 = Inr p'"
    by (auto split: sum.splits)
  from encounter_effect [OF e] have "renderedNodes p1 = renderedNodes p" by blast
  with Cons.IH [OF l] show ?case by simp
qed

lemma renderVisit_renderedNodes:
  assumes "renderVisit POLE MAX_LAT n p = Inr p'"
  shows "renderedNodes p' = renderedNodes p @ [n]"
proof -
  from assms obtain p1 where r: "renderTreeReset n p = Inr p1"
    and a: "addToRender POLE MAX_LAT n p1 = Inr p'"
    by (auto simp add: renderVisit_def split: sum.splits)
  from a obtain p3 where
    l: "addToRenderLoop POLE MAX_LAT n (rev (renderedNodes p1))
          (updNode n (\<lambda>x. x\<lparr>state := Some RENDERING\<rparr>) p1) = Inr p3"
    and p': "p' = p3\<lparr>renderedNodes := renderedNodes p3 @ [n]\<rparr>"
    by (auto simp add: addToRender_def Let_def renderedNodes_updNode split: sum.splits)
  from addToRenderLoop_renderedNodes [OF l] renderTreeReset_effect(3) [OF r] show ?thesis
    by (simp add: p' renderedNodes_updNode)
qed

lemma renderAll_reachable:
  assumes "renderAll POLE MAX_LAT ns p = Inr p'"
    and "distinct ns" and "set ns \<inter> set (renderedNodes p) = {}"
    and "reachable POLE MAX_LAT p"
  shows "reachable POLE MAX_LAT p'"
  using assms
proof (induction ns arbitrary: p)
  case Nil
  then show ?case by simp
next
  case (Cons n ns)
  from Cons.prems(1) obtain p1 where v: "renderVisit POLE MAX_LAT n p = Inr p1"
    and rest: "renderAll POLE MAX_LAT ns p1 = Inr p'"
    by (auto split: sum.splits)
  from Cons.prems have fresh: "n \<notin> set (renderedNodes p)" by auto
  from reachable.render [OF Cons.prems(4) fresh v] have r1: "reachable POLE MAX_LAT p1" .
  from renderVisit_renderedNodes [OF v] Cons.prems(2,3)
  have d: "distinct ns" "set ns \<inter> set (renderedNodes p1) = {}" by auto
  from Cons.IH [OF rest d r1] show ?case .
qed

lemma lodPlanet_reachable: "reachable POLE MAX_LAT lodPlanet"
proof -
  define p0 where "p0 = snd (newNode plainSegment NW None 0 0 (box 0 0 20 20) emptyPlanet)"
  have r0: "reachable POLE MAX_LAT p0"
    unfolding p0_def by (rule reachable.create) (rule reachable.start)
  obtain p1 where c1: "createChildrenNodes 0 p0 = Inr p1"
    by (simp add: createChildrenNodes_def Let_def p0_def newNode_def updNode_def emptyPlanet_def)
  obtain p2 where c2: "createChildrenNodes 2 p1 = Inr p2"
    using c1
    by (auto simp add: createChildrenNodes_def Let_def p0_def newNode_def updNode_def
        emptyPlanet_def setChild_def)
  have "lodPlanet = p2"
    by (simp add: lodPlanet_def p0_def[symmetric] c1 c2)
  with reachable.children [OF reachable.children [OF r0 c1] c2] show ?thesis by simp
qed

lemma destroy_total:
  "segment (heap p d) \<noteq> None \<Longrightarrow> neighbors (heap p d) \<noteq> None \<Longrightarrow> \<exists>p'. destroy d p = Inr p'"
  by (auto simp add: destroy_def Let_def updNode_def)

text \<open>Claim C9. In every state the planet can reach, after \<open>destroy\<close> of a node \<open>d\<close> has
  completed, a node \<open>x\<close> that was held in one of the neighbour slots of \<open>d\<close> holds \<open>d\<close>
  in none of its four slots.\<close>

theorem destroy_unlinks_neighbors:
  assumes reach: "reachable POLE MAX_LAT p"
    and d: "destroy d p = Inr p'"
    and link: "neighbor p d s = Some x"
  shows "neighbor p' x t \<noteq> Some d"
proof
  assume after: "neighbor p' x t = Some d"
  from reachable_invariant [OF reach] have pr: "paired p" by simp
  have noself: "neighbor p d u \<noteq> Some d" for u
  proof
    assume "neighbor p d u = Some d"
    from pairedD [OF pr this this] show False by (cases u) simp_all
  qed
  from destroy_shrink(2) [OF d after] have "neighbor p x t = Some d" .
  from pairedD [OF pr link this] have "t = OPSIDE s" .
  with destroy_unlinks [OF d noself link] after show False by simp
qed

theorem destroy_unlinks_neighbors_witness:
  "\<exists>p p'. renderAll 180 85 [1, 5, 7] lodPlanet = Inr p \<and> neighbor p 7 N = Some 5 \<and>
     destroy 7 p = Inr p' \<and>
     neighbor p' 5 N \<noteq> Some 7 \<and> neighbor p' 5 E \<noteq> Some 7 \<and>
     neighbor p' 5 S \<noteq> Some 7 \<and> neighbor p' 5 W \<noteq> Some 7"
proof -
  from lod_frame obtain p where f: "renderAll 180 85 [1, 5, 7] lodPlanet = Inr p"
    and l: "neighbor p 7 N = Some 5"
    and segs: "\<And>r. segment (heap p r) = segment (heap lodPlanet r)"
    by blast
  have "distinct [1::nat, 5, 7]" "set [1::nat, 5, 7] \<inter> set (renderedNodes lodPlanet) = {}"
    by (simp_all add: lodPlanet_facts)
  from renderAll_reachable [OF f this lodPlanet_reachable] have r: "reachable 180 85 p" .
  from l have "neighbors (heap p 7) \<noteq> None"
    by (auto simp add: neighbor_def split: option.splits)
  moreover have "segment (heap p 7) \<noteq> None" by (simp add: segs lodPlanet_facts)
  ultimately obtain p' where d: "destroy 7 p = Inr p'" using destroy_total by blast
  note u = destroy_unlinks_neighbors [OF r d l]
  from f l d u [of N] u [of E] u [of S] u [of W] show ?thesis by blast
qed

subsection \<open>getEqualNeighbor\<close>

text \<open>Paths, subtrees and the mirrored descent.\<close>

lemma subtree_append:
  "subtree t (a @ b) = (case subtree t a of None \<Rightarrow> None | Some c \<Rightarrow> subtree c b)"
  by (induction a arbitrary: t) (auto split: option.splits)

lemma subtree_prefix_None: "subtree t a = None \<Longrightarrow> subtree t (a @ b) = None"
  by (simp add: subtree_append)

lemma child_sibling: "child c q \<noteq> None \<Longrightarrow> child c q' \<noteq> None"
  by (cases c; cases q; cases q') simp_all

lemma subtree_sibling:
  assumes "subtree t (pre @ [q]) \<noteq> None"
  shows "subtree t (pre @ [q']) \<noteq> None"
proof -
  from assms obtain c where c: "subtree t pre = Some c" and "child c q \<noteq> None"
    by (auto simp add: subtree_append split: option.splits)
  then have "child c q' \<noteq> None" using child_sibling [of c q q'] by simp
  with c show ?thesis by (auto simp add: subtree_append split: option.splits)
qed

lemma descend_char:
  "subtree t cur \<noteq> None \<Longrightarrow>
   descend t sd (Some cur) ids =
     (if subtree t (cur @ map (OPPART sd) ids) = None then None
      else Some (cur @ map (OPPART sd) ids))"
proof (induction ids arbitrary: cur)
  case Nil
  then show ?case by simp
next
  case (Cons q ids)
  show ?case
  proof (cases "subtree t (cur @ [OPPART sd q]) = None")
    case True
    then have "subtree t ((cur @ [OPPART sd q]) @ map (OPPART sd) ids) = None"
      by (rule subtree_prefix_None)
    with True show ?thesis by (simp add: nodesAt_def)
  next
    case False
    with Cons.IH [of "cur @ [OPPART sd q]"] show ?thesis
      by (auto simp add: nodesAt_def)
  qed
qed

lemma walk_all_far:
  "\<forall>q\<in>set up. NEIGHBOUR sd q = None \<Longrightarrow> walkToNeighbour t sd up pathId = None"
  by (induction up arbitrary: pathId) simp_all

lemma walk_to_near:
  "\<forall>x\<in>set far. NEIGHBOUR sd x = None \<Longrightarrow> NEIGHBOUR sd q = Some q' \<Longrightarrow>
   walkToNeighbour t sd (far @ q # up) pathId =
     descend t (OPSIDE sd) (Some (rev up)) (q # rev far @ rev pathId)"
  by (induction far arbitrary: pathId) simp_all

text \<open>Columns and rows of paths.\<close>

lemma foldl_bits:
  "foldl (\<lambda>a q. 2 * a + f q) a l = a * 2 ^ length l + foldl (\<lambda>a q. 2 * a + f q) (0::nat) l"
proof (induction l arbitrary: a)
  case Nil
  then show ?case by simp
next
  case (Cons x l)
  from Cons.IH [of "2 * a + f x"] Cons.IH [of "f x"] show ?case
    by (simp add: algebra_simps)
qed

lemma tileCol_simps:
  "tileCol [] = 0"
  "tileCol (q # l) = col q * 2 ^ length l + tileCol l"
  "tileCol (a @ b) = tileCol a * 2 ^ length b + tileCol b"
  unfolding tileCol_def
    apply simp
   apply (simp add: foldl_bits [of col "col q"])
  apply (simp add: foldl_bits [of col "foldl (\<lambda>a q. 2 * a + col q) 0 a"])
  done

lemma tileRow_simps:
  "tileRow [] = 0"
  "tileRow (q # l) = row q * 2 ^ length l + tileRow l"
  "tileRow (a @ b) = tileRow a * 2 ^ length b + tileRow b"
  unfolding tileRow_def
    apply simp
   apply (simp add: foldl_bits [of row "row q"])
  apply (simp add: foldl_bits [of row "foldl (\<lambda>a q. 2 * a + row q) 0 a"])
  done

lemma col_le: "col q \<le> 1" and row_le: "row q \<le> 1"
  by (cases q; simp)+

lemma tileCol_bound: "tileCol l < 2 ^ length l"
proof (induction l)
  case Nil
  then show ?case by (simp add: tileCol_simps)
next
  case (Cons q l)
  from Cons show ?case by (cases q) (simp_all add: tileCol_simps)
qed

lemma tileRow_bound: "tileRow l < 2 ^ length l"
proof (induction l)
  case Nil
  then show ?case by (simp add: tileRow_simps)
next
  case (Cons q l)
  from Cons show ?case by (cases q) (simp_all add: tileRow_simps)
qed

lemma part_eqI: "col q = col q' \<Longrightarrow> row q = row q' \<Longrightarrow> q = q'"
  by (cases q; cases q') simp_all

lemma position_inject:
  "length a = length b \<Longrightarrow> tileCol a = tileCol b \<Longrightarrow> tileRow a = tileRow b \<Longrightarrow> a = b"
proof (induction a b rule: list_induct2)
  case Nil
  then show ?case by simp
next
  case (Cons x xs y ys)
  have bx: "tileCol xs < 2 ^ length xs" "tileCol ys < 2 ^ length xs"
    "tileRow xs < 2 ^ length xs" "tileRow ys < 2 ^ length xs"
    using tileCol_bound [of xs] tileCol_bound [of ys] tileRow_bound [of xs] tileRow_bound [of ys]
      Cons.hyps by simp_all
  from Cons.prems(1) Cons.hyps
  have c: "col x * 2 ^ length xs + tileCol xs = col y * 2 ^ length xs + tileCol ys"
    by (simp add: tileCol_simps)
  from Cons.prems(2) Cons.hyps
  have r: "row x * 2 ^ length xs + tileRow xs = row y * 2 ^ length xs + tileRow ys"
    by (simp add: tileRow_simps)
  have cc: "col x = col y \<and> tileCol xs = tileCol ys"
    using c bx(1,2) col_le [of x] col_le [of y]
    by (cases "col x"; cases "col y") auto
  have rr: "row x = row y \<and> tileRow xs = tileRow ys"
    using r bx(3,4) row_le [of x] row_le [of y]
    by (cases "row x"; cases "row y") auto
  from cc rr Cons.IH part_eqI show ?case by blast
qed

lemma near_part:
  "NEIGHBOUR sd q = Some q' \<Longrightarrow>
   OPPART (OPSIDE sd) q = q' \<and>
   int (col q') = int (col q) + fst (step sd) \<and>
   int (row q') = int (row q) + snd (step sd)"
  by (cases sd; cases q) auto

lemma far_part:
  "NEIGHBOUR sd q = None \<Longrightarrow>
   int (col (OPPART (OPSIDE sd) q)) = int (col q) - fst (step sd) \<and>
   int (row (OPPART (OPSIDE sd) q)) = int (row q) - snd (step sd)"
  by (cases sd; cases q) auto

lemma far_suffix:
  "\<forall>q\<in>set suf. NEIGHBOUR sd q = None \<Longrightarrow>
   int (tileCol (map (OPPART (OPSIDE sd)) suf)) =
     int (tileCol suf) - fst (step sd) * (2 ^ length suf - 1) \<and>
   int (tileRow (map (OPPART (OPSIDE sd)) suf)) =
     int (tileRow suf) - snd (step sd) * (2 ^ length suf - 1)"
proof (induction suf)
  case Nil
  then show ?case by (simp add: tileCol_simps tileRow_simps)
next
  case (Cons q suf)
  from Cons.prems have far: "NEIGHBOUR sd q = None" by simp
  from Cons have IH:
    "int (tileCol (map (OPPART (OPSIDE sd)) suf)) =
       int (tileCol suf) - fst (step sd) * (2 ^ length suf - 1)"
    "int (tileRow (map (OPPART (OPSIDE sd)) suf)) =
       int (tileRow suf) - snd (step sd) * (2 ^ length suf - 1)"
    by simp_all
  from far_part [OF far] have e:
    "int (col q) = fst (step sd) + int (col (OPPART (OPSIDE sd) q))"
    "int (row q) = snd (step sd) + int (row (OPPART (OPSIDE sd) q))"
    by simp_all
  show ?case
    by (simp add: tileCol_simps tileRow_simps IH e algebra_simps)
qed

lemma candidate_isNeighbour:
  assumes near: "NEIGHBOUR sd q = Some q'"
    and far: "\<forall>x\<in>set suf. NEIGHBOUR sd x = None"
  shows "isNeighbour sd (pre @ q # suf) (pre @ q' # map (OPPART (OPSIDE sd)) suf)"
  using near_part [OF near] far_suffix [OF far]
  by (simp add: isNeighbour_def tileCol_simps tileRow_simps algebra_simps)

lemma all_far_no_neighbour:
  assumes far: "\<forall>x\<in>set path. NEIGHBOUR sd x = None"
  shows "\<not> isNeighbour sd path other"
proof
  assume n: "isNeighbour sd path other"
  then have len: "length other = length path" by (simp add: isNeighbour_def)
  note m = far_suffix [OF far]
  have b: "tileCol (map (OPPART (OPSIDE sd)) path) < 2 ^ length path"
    "tileRow (map (OPPART (OPSIDE sd)) path) < 2 ^ length path"
    "tileCol other < 2 ^ length path" "tileRow other < 2 ^ length path"
    "tileCol path < 2 ^ length path" "tileRow path < 2 ^ length path"
    using tileCol_bound [of "map (OPPART (OPSIDE sd)) path"]
      tileRow_bound [of "map (OPPART (OPSIDE sd)) path"]
      tileCol_bound [of other] tileRow_bound [of other]
      tileCol_bound [of path] tileRow_bound [of path] len
    by simp_all
  then have bi: "int (tileCol (map (OPPART (OPSIDE sd)) path)) < 2 ^ length path"
    "int (tileRow (map (OPPART (OPSIDE sd)) path)) < 2 ^ length path"
    "int (tileCol other) < 2 ^ length path" "int (tileRow other) < 2 ^ length path"
    by (simp_all flip: of_nat_less_iff)
  from n m bi show False
    by (cases sd) (simp_all add: isNeighbour_def)
qed

text \<open>Claim C8, as amended. For a node other than the root that is in the tree, and any
  side, \<open>getEqualNeighbor\<close> returns without an exception. When it returns a node, that
  node is in the tree, at the same depth, one column or one row further across the side.
  When it returns \<open>null\<close> or \<open>undefined\<close>, the tree has no node at the same depth across
  that side; no shallower node is returned in its place.\<close>

theorem getEqualNeighbor_same_depth:
  assumes nonroot: "path \<noteq> []" and inTree: "subtree t path \<noteq> None"
  shows "\<exists>r. getEqualNeighbor t path sd = Inr r \<and>
     (case r of
        Some other \<Rightarrow> isNeighbour sd path other \<and> subtree t other \<noteq> None
      | None \<Rightarrow> \<forall>other. isNeighbour sd path other \<longrightarrow> subtree t other = None)"
proof (cases "\<forall>x\<in>set path. NEIGHBOUR sd x = None")
  case True
  from nonroot obtain q up where rp: "rev path = q # up" by (cases "rev path") auto
  then have "q \<in> set path" by (metis list.set_intros(1) set_rev)
  with True have "NEIGHBOUR sd q = None" by blast
  moreover from True have "walkToNeighbour t sd (rev path) [] = None"
    by (intro walk_all_far) simp
  ultimately have "getEqualNeighbor t path sd = Inr None"
    by (simp add: getEqualNeighbor_def rp)
  with all_far_no_neighbour [OF True] show ?thesis by simp
next
  case False
  then have "\<exists>x\<in>set (rev path). NEIGHBOUR sd x \<noteq> None" by simp
  from split_list_first_prop [OF this] obtain far q up where
    rp: "rev path = far @ q # up" and near: "NEIGHBOUR sd q \<noteq> None"
    and far: "\<forall>x\<in>set far. NEIGHBOUR sd x = None"
    by auto
  from near obtain q' where q': "NEIGHBOUR sd q = Some q'" by auto
  from rp have path: "path = rev up @ q # rev far"
    by (metis rev_append rev.simps(2) rev_rev_ident append_Cons append_Nil append_assoc)
  define cand where "cand = rev up @ q' # map (OPPART (OPSIDE sd)) (rev far)"
  from far have far': "\<forall>x\<in>set (rev far). NEIGHBOUR sd x = None" by simp
  have isN: "isNeighbour sd path cand"
    unfolding path cand_def by (rule candidate_isNeighbour [OF q' far'])
  have up: "subtree t (rev up) \<noteq> None"
    using inTree by (auto simp add: path subtree_append split: option.splits)
  have res: "getEqualNeighbor t path sd =
     Inr (if subtree t cand = None then None else Some cand)"
  proof (cases far)
    case Nil
    with rp q' show ?thesis
      by (simp add: getEqualNeighbor_def nodesAt_def cand_def)
  next
    case (Cons f far2)
    with far have ff: "NEIGHBOUR sd f = None" by simp
    from Cons rp have rp': "rev path = f # (far2 @ q # up)" by simp
    have g: "getEqualNeighbor t path sd = Inr (walkToNeighbour t sd (rev path) [])"
      unfolding getEqualNeighbor_def Let_def rp' by (simp add: ff del: walkToNeighbour.simps)
    have w: "walkToNeighbour t sd (rev path) [] =
        descend t (OPSIDE sd) (Some (rev up)) (q # rev far)"
      unfolding rp using walk_to_near [OF far q', of t up "[]"] by simp
    have m: "rev up @ map (OPPART (OPSIDE sd)) (q # rev far) = cand"
      using near_part [OF q'] by (simp add: cand_def)
    show ?thesis
      unfolding g w descend_char [OF up] m ..
  qed
  show ?thesis
  proof (cases "subtree t cand = None")
    case True
    have "subtree t other = None" if "isNeighbour sd path other" for other
    proof -
      from that isN have "other = cand"
        by (intro position_inject) (simp_all add: isNeighbour_def)
      with True show ?thesis by simp
    qed
    with res True show ?thesis by simp
  next
    case False
    with res isN show ?thesis by simp
  qed
qed

theorem getEqualNeighbor_same_depth_counterexample:
  "subtree unevenTree [NW, NE] \<noteq> None \<and> subtree unevenTree [NE] \<noteq> None \<and>
   subtree unevenTree [NE, NW] = None \<and>
   getEqualNeighbor unevenTree [NW, NE] E = Inr None"
  by (simp add: unevenTree_def getEqualNeighbor_def nodesAt_def)

theorem getEqualNeighbor_same_depth_witness:
  "[NW, NE] \<noteq> [] \<and> subtree evenTree [NW, NE] \<noteq> None \<and>
   getEqualNeighbor evenTree [NW, NE] E = Inr (Some [NE, NW]) \<and>
   isNeighbour E [NW, NE] [NE, NW] \<and> subtree evenTree [NE, NW] \<noteq> None"
proof -
  have n: "[NW, NE] \<noteq> []" by simp
  have s: "subtree evenTree [NW, NE] \<noteq> None" by (simp add: evenTree_def)
  have e: "getEqualNeighbor evenTree [NW, NE] E = Inr (Some [NE, NW])"
    by (simp add: evenTree_def getEqualNeighbor_def nodesAt_def)
  from getEqualNeighbor_same_depth [OF n s, of E] e n s show ?thesis by simp
qed

end
